theory Spec2Isabelle
  imports Complex_Main "HOL-Library.Multiset"
begin

section \<open>Common types\<close>

text \<open>
  Element indices are unsigned 32-bit integers in the program; they are modelled as
  natural numbers, with the increment written out modulo \<open>2 ^ 32\<close>. The in-band
  "no index" value is the largest 32-bit value. The program's \<open>float\<close> is modelled by
  \<open>real\<close>: rounding, infinities and NaN are outside the model.
\<close>

type_synonym ElementIndex = nat

definition NoneElementIndex :: ElementIndex where
  "NoneElementIndex = 4294967295"

definition incr32 :: "ElementIndex \<Rightarrow> ElementIndex" where
  "incr32 p = (p + 1) mod 4294967296"

type_synonym vec2f = "real \<times> real"

datatype StateType =
  NotBurning | Developing_1 | Developing_2 | Burning
  | Extinguishing_Consumed | Extinguishing_Smothered

record CombustionState =
  State :: StateType
  FlameDevelopment :: real
  MaxFlameDevelopment :: real
  Personality :: real

definition CombustionState0 :: CombustionState where
  "CombustionState0 =
     \<lparr>State = NotBurning, FlameDevelopment = 0, MaxFlameDevelopment = 0, Personality = 0\<rparr>"

datatype EphemeralType = NoneEphemeral | AirBubble | Debris | Sparkle

datatype GameEvent = OnPointCombustionBegin | OnPointCombustionEnd

record StructuralMaterial =
  Mass :: real
  WaterVolumeFill :: real
  HeatCapacity :: real
  IgnitionTemperature :: real

record ConnectedSpring =
  SpringIndex :: ElementIndex
  OtherEndpointIndex :: ElementIndex

text \<open>
  The game parameters the modelled functions read. The per-game adjustable parameters and
  the compile-time constants of \<open>GameParameters\<close> are both fields here, since the
  header that fixes the constants is not among the sources.
\<close>

record GameParameters =
  MaxBurningParticles :: nat
  CombustionSpeedAdjustment :: real
  CombustionHeatAdjustment :: real
  IgnitionTemperatureAdjustment :: real
  WaterDensityAdjustment :: real
  WaterMass :: real
  IgnitionTemperatureHighWatermark :: real
  IgnitionTemperatureLowWatermark :: real
  SmotheringWaterLowWatermark :: real
  SmotheringWaterHighWatermark :: real
  SmotheringDecayHighWatermark :: real
  SmotheringDecayLowWatermark :: real
  GravityNormalized :: vec2f
  InitialTemperature :: real

section \<open>The particle store (Points)\<close>

record Points =
  mShipPointCount :: nat
  mEphemeralPointCount :: nat
  mMaterialsBuffer :: "StructuralMaterial list"
  mPositionBuffer :: "vec2f list"
  mVelocityBuffer :: "vec2f list"
  mAugmentedMaterialMassBuffer :: "real list"
  mMassBuffer :: "real list"
  mDecayBuffer :: "real list"
  mIntegrationFactorTimeCoefficientBuffer :: "real list"
  mIntegrationFactorBuffer :: "vec2f list"
  mMaterialWaterVolumeFillBuffer :: "real list"
  mWaterBuffer :: "real list"
  mTemperatureBuffer :: "real list"
  mMaterialHeatCapacityBuffer :: "real list"
  mMaterialIgnitionTemperatureBuffer :: "real list"
  mCombustionStateBuffer :: "CombustionState list"
  mEphemeralTypeBuffer :: "EphemeralType list"
  mEphemeralStartTimeBuffer :: "real list"
  mEphemeralMaxLifetimeBuffer :: "real list"
  mConnectedSpringsBuffer :: "ConnectedSpring list list"
  mPlaneIdBuffer :: "nat list"
  mIsPinnedBuffer :: "bool list"
  mBurningPoints :: "ElementIndex list"
  mIgnitionCandidates :: "(ElementIndex \<times> real) list"
  mFreeEphemeralParticleSearchStartIndex :: ElementIndex
  mCurrentNumMechanicalDynamicsIterations :: real
  mGameEventHandler :: "GameEvent list"

definition mAllPointCount :: "Points \<Rightarrow> nat" where
  "mAllPointCount s = mShipPointCount s + mEphemeralPointCount s"

definition GetEphemeralType :: "Points \<Rightarrow> ElementIndex \<Rightarrow> EphemeralType" where
  "GetEphemeralType s p = mEphemeralTypeBuffer s ! p"

subsection \<open>Ephemeral pool: \<open>FindFreeEphemeralParticle\<close>\<close>

text \<open>
  The scan loop of \<open>FindFreeEphemeralParticle\<close>. It has no bound of its own: it ends
  when a free slot is read or when the cursor comes back to the search start index. A
  run that never ends is the value \<open>None\<close>. The result is either the free slot found,
  or the oldest particle seen when the cursor went around.
\<close>

datatype ScanResult = Found ElementIndex | WentAround ElementIndex

partial_function (option) FindFree_loop ::
  "Points \<Rightarrow> real \<Rightarrow> ElementIndex \<Rightarrow> ElementIndex \<Rightarrow> real \<Rightarrow> ScanResult option"
where
  "FindFree_loop s currentSimulationTime p oldestParticle oldestParticleLifetime =
     (if GetEphemeralType s p = NoneEphemeral then Some (Found p)
      else
        (let lifetime = currentSimulationTime - mEphemeralStartTimeBuffer s ! p;
             oldestParticle' =
               (if lifetime \<ge> oldestParticleLifetime then p else oldestParticle);
             oldestParticleLifetime' =
               (if lifetime \<ge> oldestParticleLifetime then lifetime else oldestParticleLifetime);
             p1 = incr32 p;
             p2 = (if p1 \<ge> mAllPointCount s then mShipPointCount s else p1)
         in if p2 = mFreeEphemeralParticleSearchStartIndex s
            then Some (WentAround oldestParticle')
            else FindFree_loop s currentSimulationTime p2 oldestParticle' oldestParticleLifetime'))"

definition advance_search_start :: "Points \<Rightarrow> ElementIndex \<Rightarrow> Points" where
  "advance_search_start s p =
     (let start = incr32 p
      in s\<lparr>mFreeEphemeralParticleSearchStartIndex :=
             (if start \<ge> mAllPointCount s then mShipPointCount s else start)\<rparr>)"

definition FindFreeEphemeralParticle ::
  "real \<Rightarrow> bool \<Rightarrow> Points \<Rightarrow> (ElementIndex \<times> Points) option"
where
  "FindFreeEphemeralParticle currentSimulationTime force s =
     (case FindFree_loop s currentSimulationTime
             (mFreeEphemeralParticleSearchStartIndex s) NoneElementIndex 0 of
        None \<Rightarrow> None
      | Some (Found p) \<Rightarrow> Some (p, advance_search_start s p)
      | Some (WentAround oldestParticle) \<Rightarrow>
          if \<not> force then Some (NoneElementIndex, s)
          else Some (oldestParticle, advance_search_start s oldestParticle))"

text \<open>
  The three creators of ephemeral particles. Each asks for a slot and then stores the
  particle's attributes in it. Only the buffers carried by the record are written here.
  \<open>CalculateIntegrationFactorTimeCoefficient\<close> is declared in a header that is not
  among the sources; it is a parameter \<open>calcCoeff\<close>.
\<close>

definition FloatMax :: real where
  "FloatMax = 340282346638528859811704183484516925440"

definition store_ephemeral ::
  "(real \<Rightarrow> real) \<Rightarrow> ElementIndex \<Rightarrow> vec2f \<Rightarrow> vec2f
   \<Rightarrow> StructuralMaterial \<Rightarrow> real \<Rightarrow> real \<Rightarrow> EphemeralType \<Rightarrow> real \<Rightarrow> real \<Rightarrow> nat
   \<Rightarrow> Points \<Rightarrow> Points"
where
  "store_ephemeral calcCoeff pointIndex position velocity structuralMaterial
       waterVolumeFill temperature ephemeralType currentSimulationTime maxLifetime planeId s =
     s\<lparr>mPositionBuffer := (mPositionBuffer s)[pointIndex := position],
       mVelocityBuffer := (mVelocityBuffer s)[pointIndex := velocity],
       mAugmentedMaterialMassBuffer :=
         (mAugmentedMaterialMassBuffer s)[pointIndex := Mass structuralMaterial],
       mMassBuffer := (mMassBuffer s)[pointIndex := Mass structuralMaterial],
       mDecayBuffer := (mDecayBuffer s)[pointIndex := 1],
       mIntegrationFactorTimeCoefficientBuffer :=
         (mIntegrationFactorTimeCoefficientBuffer s)
           [pointIndex := calcCoeff (mCurrentNumMechanicalDynamicsIterations s)],
       mMaterialsBuffer := (mMaterialsBuffer s)[pointIndex := structuralMaterial],
       mMaterialWaterVolumeFillBuffer :=
         (mMaterialWaterVolumeFillBuffer s)[pointIndex := waterVolumeFill],
       mWaterBuffer := (mWaterBuffer s)[pointIndex := 0],
       mTemperatureBuffer := (mTemperatureBuffer s)[pointIndex := temperature],
       mMaterialHeatCapacityBuffer :=
         (mMaterialHeatCapacityBuffer s)[pointIndex := HeatCapacity structuralMaterial],
       mMaterialIgnitionTemperatureBuffer :=
         (mMaterialIgnitionTemperatureBuffer s)
           [pointIndex := IgnitionTemperature structuralMaterial],
       mCombustionStateBuffer := (mCombustionStateBuffer s)[pointIndex := CombustionState0],
       mEphemeralTypeBuffer := (mEphemeralTypeBuffer s)[pointIndex := ephemeralType],
       mEphemeralStartTimeBuffer :=
         (mEphemeralStartTimeBuffer s)[pointIndex := currentSimulationTime],
       mEphemeralMaxLifetimeBuffer := (mEphemeralMaxLifetimeBuffer s)[pointIndex := maxLifetime],
       mPlaneIdBuffer := (mPlaneIdBuffer s)[pointIndex := planeId]\<rparr>"

definition CreateEphemeralParticleAirBubble ::
  "(real \<Rightarrow> real) \<Rightarrow> GameParameters \<Rightarrow> vec2f \<Rightarrow> StructuralMaterial \<Rightarrow> real \<Rightarrow> nat
   \<Rightarrow> Points \<Rightarrow> Points option"
where
  "CreateEphemeralParticleAirBubble calcCoeff gp position structuralMaterial
       currentSimulationTime planeId s =
     (case FindFreeEphemeralParticle currentSimulationTime False s of
        None \<Rightarrow> None
      | Some (pointIndex, s1) \<Rightarrow>
          if NoneElementIndex = pointIndex then Some s1
          else Some (store_ephemeral calcCoeff pointIndex position (0, 0) structuralMaterial
                       (WaterVolumeFill structuralMaterial) (InitialTemperature gp)
                       AirBubble currentSimulationTime FloatMax planeId s1))"

definition CreateEphemeralParticleDebris ::
  "(real \<Rightarrow> real) \<Rightarrow> GameParameters \<Rightarrow> vec2f \<Rightarrow> vec2f \<Rightarrow> StructuralMaterial \<Rightarrow> real
   \<Rightarrow> real \<Rightarrow> nat \<Rightarrow> Points \<Rightarrow> Points option"
where
  "CreateEphemeralParticleDebris calcCoeff gp position velocity structuralMaterial
       currentSimulationTime maxLifetime planeId s =
     (case FindFreeEphemeralParticle currentSimulationTime True s of
        None \<Rightarrow> None
      | Some (pointIndex, s1) \<Rightarrow>
          Some (store_ephemeral calcCoeff pointIndex position velocity structuralMaterial
                  0 (InitialTemperature gp)
                  Debris currentSimulationTime maxLifetime planeId s1))"

definition CreateEphemeralParticleSparkle ::
  "(real \<Rightarrow> real) \<Rightarrow> vec2f \<Rightarrow> vec2f \<Rightarrow> StructuralMaterial \<Rightarrow> real
   \<Rightarrow> real \<Rightarrow> nat \<Rightarrow> Points \<Rightarrow> Points option"
where
  "CreateEphemeralParticleSparkle calcCoeff position velocity structuralMaterial
       currentSimulationTime maxLifetime planeId s =
     (case FindFreeEphemeralParticle currentSimulationTime True s of
        None \<Rightarrow> None
      | Some (pointIndex, s1) \<Rightarrow>
          Some (store_ephemeral calcCoeff pointIndex position velocity structuralMaterial
                  0 (77315 / 100)
                  Sparkle currentSimulationTime maxLifetime planeId s1))"

text \<open>
  Modelled from the spec: \<open>ExpireEphemeralParticle\<close> (defined in a header that is not
  among the sources) returns the slot to the pool by setting its kind to none.
\<close>

definition ExpireEphemeralParticle :: "ElementIndex \<Rightarrow> Points \<Rightarrow> Points" where
  "ExpireEphemeralParticle pointIndex s =
     s\<lparr>mEphemeralTypeBuffer := (mEphemeralTypeBuffer s)[pointIndex := NoneEphemeral]\<rparr>"

subsection \<open>Facts about the scan loop\<close>

text \<open>
  \<open>pool_wf\<close> is the condition the function asserts on entry (the search start index
  lies in the ephemeral region), together with the buffers having one cell per point.
\<close>

definition pool_wf :: "Points \<Rightarrow> bool" where
  "pool_wf s \<longleftrightarrow>
     mShipPointCount s \<le> mFreeEphemeralParticleSearchStartIndex s
     \<and> mFreeEphemeralParticleSearchStartIndex s < mAllPointCount s
     \<and> length (mEphemeralTypeBuffer s) = mAllPointCount s
     \<and> length (mEphemeralStartTimeBuffer s) = mAllPointCount s
     \<and> mAllPointCount s \<le> NoneElementIndex"

definition scan_next :: "Points \<Rightarrow> ElementIndex \<Rightarrow> ElementIndex" where
  "scan_next s p = (if incr32 p \<ge> mAllPointCount s then mShipPointCount s else incr32 p)"

definition scan_rest :: "Points \<Rightarrow> ElementIndex \<Rightarrow> ElementIndex set" where
  "scan_rest s p =
     (if p < mFreeEphemeralParticleSearchStartIndex s
      then {p ..< mFreeEphemeralParticleSearchStartIndex s}
      else {p ..< mAllPointCount s}
           \<union> {mShipPointCount s ..< mFreeEphemeralParticleSearchStartIndex s})"

definition scan_left :: "Points \<Rightarrow> ElementIndex \<Rightarrow> nat" where
  "scan_left s p =
     (if p < mFreeEphemeralParticleSearchStartIndex s
      then mFreeEphemeralParticleSearchStartIndex s - p
      else mAllPointCount s - p + (mFreeEphemeralParticleSearchStartIndex s - mShipPointCount s))"

definition lifetime_of :: "Points \<Rightarrow> real \<Rightarrow> ElementIndex \<Rightarrow> real" where
  "lifetime_of s now p = now - mEphemeralStartTimeBuffer s ! p"

lemma incr32_small: "p < n \<Longrightarrow> n \<le> NoneElementIndex \<Longrightarrow> incr32 p = p + 1"
  by (simp add: incr32_def NoneElementIndex_def)

lemma scan_next_cases:
  assumes "pool_wf s" "mShipPointCount s \<le> p" "p < mAllPointCount s"
  shows "scan_next s p = (if p + 1 = mAllPointCount s then mShipPointCount s else p + 1)"
  using assms incr32_small[of p "mAllPointCount s"]
  by (auto simp: scan_next_def pool_wf_def)

lemma scan_next_in_region:
  assumes "pool_wf s" "mShipPointCount s \<le> p" "p < mAllPointCount s"
  shows "mShipPointCount s \<le> scan_next s p \<and> scan_next s p < mAllPointCount s"
  using assms by (auto simp: scan_next_cases)

lemma scan_rest_last:
  assumes "pool_wf s" "mShipPointCount s \<le> p" "p < mAllPointCount s"
    "scan_next s p = mFreeEphemeralParticleSearchStartIndex s"
  shows "scan_rest s p = {p}"
  using assms by (auto simp: scan_next_cases scan_rest_def pool_wf_def split: if_splits)

lemma scan_rest_step:
  assumes "pool_wf s" "mShipPointCount s \<le> p" "p < mAllPointCount s"
    "scan_next s p \<noteq> mFreeEphemeralParticleSearchStartIndex s"
  shows "scan_rest s p = insert p (scan_rest s (scan_next s p))"
  using assms by (auto simp: scan_next_cases scan_rest_def pool_wf_def split: if_splits)

lemma scan_left_step:
  assumes "pool_wf s" "mShipPointCount s \<le> p" "p < mAllPointCount s"
    "scan_next s p \<noteq> mFreeEphemeralParticleSearchStartIndex s"
  shows "scan_left s (scan_next s p) < scan_left s p"
  using assms by (auto simp: scan_next_cases scan_left_def pool_wf_def split: if_splits)

lemma scan_rest_start:
  assumes "pool_wf s"
  shows "scan_rest s (mFreeEphemeralParticleSearchStartIndex s) = {mShipPointCount s ..< mAllPointCount s}"
  using assms by (auto simp: scan_rest_def pool_wf_def)

definition scan_post :: "Points \<Rightarrow> real \<Rightarrow> ElementIndex \<Rightarrow> ElementIndex \<Rightarrow> real \<Rightarrow> ScanResult \<Rightarrow> bool" where
  "scan_post s now p oldest l r =
     (case r of
        Found q \<Rightarrow> q \<in> scan_rest s p \<and> GetEphemeralType s q = NoneEphemeral
      | WentAround oldest' \<Rightarrow>
          (\<forall>q \<in> scan_rest s p. GetEphemeralType s q \<noteq> NoneEphemeral)
          \<and> ((oldest' = oldest \<and> (\<forall>q \<in> scan_rest s p. lifetime_of s now q < l))
             \<or> (oldest' \<in> scan_rest s p \<and> l \<le> lifetime_of s now oldest'
                 \<and> (\<forall>q \<in> scan_rest s p. lifetime_of s now q \<le> lifetime_of s now oldest'))))"

lemma FindFree_loop_post:
  assumes wf: "pool_wf s"
  shows "mShipPointCount s \<le> p \<Longrightarrow> p < mAllPointCount s \<Longrightarrow>
         \<exists>r. FindFree_loop s now p oldest l = Some r \<and> scan_post s now p oldest l r"
proof (induction "scan_left s p" arbitrary: p oldest l rule: less_induct)
  case less
  note inreg = less.prems
  show ?case
  proof (cases "GetEphemeralType s p = NoneEphemeral")
    case True
    have "p \<in> scan_rest s p"
      using wf inreg by (auto simp: scan_rest_def pool_wf_def)
    with True show ?thesis
      by (subst FindFree_loop.simps) (simp add: scan_post_def)
  next
    case occupied: False
    define lt where "lt = lifetime_of s now p"
    define o1 where "o1 = (if lt \<ge> l then p else oldest)"
    define l1 where "l1 = (if lt \<ge> l then lt else l)"
    have unfold: "FindFree_loop s now p oldest l =
        (if scan_next s p = mFreeEphemeralParticleSearchStartIndex s
         then Some (WentAround o1)
         else FindFree_loop s now (scan_next s p) o1 l1)"
      using occupied
      by (subst FindFree_loop.simps)
         (simp add: Let_def scan_next_def o1_def l1_def lt_def lifetime_of_def)
    show ?thesis
    proof (cases "scan_next s p = mFreeEphemeralParticleSearchStartIndex s")
      case True
      have rest: "scan_rest s p = {p}"
        using scan_rest_last[OF wf inreg True] .
      show ?thesis
        using occupied True rest unfold
        by (auto simp: scan_post_def o1_def lt_def not_le)
    next
      case False
      have rest: "scan_rest s p = insert p (scan_rest s (scan_next s p))"
        using scan_rest_step[OF wf inreg False] .
      have dec: "scan_left s (scan_next s p) < scan_left s p"
        using scan_left_step[OF wf inreg False] .
      have reg: "mShipPointCount s \<le> scan_next s p" "scan_next s p < mAllPointCount s"
        using scan_next_in_region[OF wf inreg] by auto
      obtain r where r: "FindFree_loop s now (scan_next s p) o1 l1 = Some r"
        and post: "scan_post s now (scan_next s p) o1 l1 r"
        using less.hyps[OF dec reg] by blast
      have "scan_post s now p oldest l r"
      proof (cases r)
        case (Found q)
        with post rest show ?thesis by (auto simp: scan_post_def)
      next
        case (WentAround o')
        show ?thesis
        proof (cases "lt \<ge> l")
          case True
          with post WentAround rest occupied show ?thesis
            unfolding scan_post_def o1_def l1_def lt_def
            by (auto simp: less_imp_le) 
        next
          case False
          with post WentAround rest occupied show ?thesis
            unfolding scan_post_def o1_def l1_def lt_def
            by (auto simp: not_le) 
        qed
      qed
      with r unfold False show ?thesis by simp
    qed
  qed
qed

definition ephemeral_region :: "Points \<Rightarrow> ElementIndex set" where
  "ephemeral_region s = {mShipPointCount s ..< mAllPointCount s}"

definition no_future_start :: "real \<Rightarrow> Points \<Rightarrow> bool" where
  "no_future_start now s \<longleftrightarrow>
     (\<forall>q \<in> ephemeral_region s.
        GetEphemeralType s q \<noteq> NoneEphemeral \<longrightarrow> mEphemeralStartTimeBuffer s ! q \<le> now)"

lemma FindFree_loop_from_start:
  assumes "pool_wf s"
  shows "\<exists>r. FindFree_loop s now (mFreeEphemeralParticleSearchStartIndex s) NoneElementIndex 0 = Some r
           \<and> (case r of
                 Found q \<Rightarrow> q \<in> ephemeral_region s \<and> GetEphemeralType s q = NoneEphemeral
               | WentAround oldest \<Rightarrow>
                   (\<forall>q \<in> ephemeral_region s. GetEphemeralType s q \<noteq> NoneEphemeral)
                   \<and> ((oldest = NoneElementIndex
                        \<and> (\<forall>q \<in> ephemeral_region s. lifetime_of s now q < 0))
                      \<or> (oldest \<in> ephemeral_region s
                          \<and> (\<forall>q \<in> ephemeral_region s.
                                lifetime_of s now q \<le> lifetime_of s now oldest))))"
proof -
  have reg: "mShipPointCount s \<le> mFreeEphemeralParticleSearchStartIndex s"
    "mFreeEphemeralParticleSearchStartIndex s < mAllPointCount s"
    using assms by (auto simp: pool_wf_def)
  obtain r where r: "FindFree_loop s now (mFreeEphemeralParticleSearchStartIndex s) NoneElementIndex 0 = Some r"
    and post: "scan_post s now (mFreeEphemeralParticleSearchStartIndex s) NoneElementIndex 0 r"
    using FindFree_loop_post[OF assms reg] by blast
  from post have "case r of
                 Found q \<Rightarrow> q \<in> ephemeral_region s \<and> GetEphemeralType s q = NoneEphemeral
               | WentAround oldest \<Rightarrow>
                   (\<forall>q \<in> ephemeral_region s. GetEphemeralType s q \<noteq> NoneEphemeral)
                   \<and> ((oldest = NoneElementIndex
                        \<and> (\<forall>q \<in> ephemeral_region s. lifetime_of s now q < 0))
                      \<or> (oldest \<in> ephemeral_region s
                          \<and> (\<forall>q \<in> ephemeral_region s.
                                lifetime_of s now q \<le> lifetime_of s now oldest)))"
    unfolding scan_post_def scan_rest_start[OF assms] ephemeral_region_def
    by (cases r) auto
  with r show ?thesis by blast
qed

lemma region_nonempty: "pool_wf s \<Longrightarrow> mFreeEphemeralParticleSearchStartIndex s \<in> ephemeral_region s"
  by (simp add: pool_wf_def ephemeral_region_def)

lemma FindFree_loop_full_pool:
  assumes wf: "pool_wf s" and nf: "no_future_start now s"
    and full: "\<forall>q \<in> ephemeral_region s. GetEphemeralType s q \<noteq> NoneEphemeral"
  shows "\<exists>oldest. FindFree_loop s now (mFreeEphemeralParticleSearchStartIndex s) NoneElementIndex 0
             = Some (WentAround oldest)
           \<and> oldest \<in> ephemeral_region s
           \<and> (\<forall>q \<in> ephemeral_region s. lifetime_of s now q \<le> lifetime_of s now oldest)"
proof -
  obtain r where r: "FindFree_loop s now (mFreeEphemeralParticleSearchStartIndex s) NoneElementIndex 0 = Some r"
    and post: "case r of
                 Found q \<Rightarrow> q \<in> ephemeral_region s \<and> GetEphemeralType s q = NoneEphemeral
               | WentAround oldest \<Rightarrow>
                   (\<forall>q \<in> ephemeral_region s. GetEphemeralType s q \<noteq> NoneEphemeral)
                   \<and> ((oldest = NoneElementIndex
                        \<and> (\<forall>q \<in> ephemeral_region s. lifetime_of s now q < 0))
                      \<or> (oldest \<in> ephemeral_region s
                          \<and> (\<forall>q \<in> ephemeral_region s.
                                lifetime_of s now q \<le> lifetime_of s now oldest)))"
    using FindFree_loop_from_start[OF wf] by blast
  show ?thesis
  proof (cases r)
    case (Found q)
    with post full show ?thesis by auto
  next
    case (WentAround oldest)
    have "0 \<le> lifetime_of s now (mFreeEphemeralParticleSearchStartIndex s)"
      using nf full region_nonempty[OF wf]
      by (auto simp: no_future_start_def lifetime_of_def)
    then have "\<not> (\<forall>q \<in> ephemeral_region s. lifetime_of s now q < 0)"
      using region_nonempty[OF wf] by (auto simp: not_less)
    with post WentAround r show ?thesis by auto
  qed
qed

lemma FindFree_loop_some_free:
  assumes wf: "pool_wf s"
    and free: "\<exists>q \<in> ephemeral_region s. GetEphemeralType s q = NoneEphemeral"
  shows "\<exists>p. FindFree_loop s now (mFreeEphemeralParticleSearchStartIndex s) NoneElementIndex 0
             = Some (Found p)
           \<and> p \<in> ephemeral_region s \<and> GetEphemeralType s p = NoneEphemeral"
proof -
  obtain r where r: "FindFree_loop s now (mFreeEphemeralParticleSearchStartIndex s) NoneElementIndex 0 = Some r"
    and post: "case r of
                 Found q \<Rightarrow> q \<in> ephemeral_region s \<and> GetEphemeralType s q = NoneEphemeral
               | WentAround oldest \<Rightarrow>
                   (\<forall>q \<in> ephemeral_region s. GetEphemeralType s q \<noteq> NoneEphemeral)
                   \<and> ((oldest = NoneElementIndex
                        \<and> (\<forall>q \<in> ephemeral_region s. lifetime_of s now q < 0))
                      \<or> (oldest \<in> ephemeral_region s
                          \<and> (\<forall>q \<in> ephemeral_region s.
                                lifetime_of s now q \<le> lifetime_of s now oldest)))"
    using FindFree_loop_from_start[OF wf] by blast
  show ?thesis
  proof (cases r)
    case (Found q)
    with post r show ?thesis by auto
  next
    case (WentAround oldest)
    with post free show ?thesis by auto
  qed
qed

lemma advance_search_start_in_region:
  assumes "pool_wf s" "p \<in> ephemeral_region s"
  shows "pool_wf (advance_search_start s p)"
  using assms incr32_small[of p "mAllPointCount s"]
  by (auto simp: advance_search_start_def pool_wf_def ephemeral_region_def Let_def
      mAllPointCount_def)

lemma advance_search_start_fields:
  "mEphemeralTypeBuffer (advance_search_start s p) = mEphemeralTypeBuffer s"
  "mEphemeralStartTimeBuffer (advance_search_start s p) = mEphemeralStartTimeBuffer s"
  "mShipPointCount (advance_search_start s p) = mShipPointCount s"
  "mEphemeralPointCount (advance_search_start s p) = mEphemeralPointCount s"
  by (simp_all add: advance_search_start_def Let_def)

lemma none_index_outside: "pool_wf s \<Longrightarrow> NoneElementIndex \<notin> ephemeral_region s"
  by (simp add: pool_wf_def ephemeral_region_def)

text \<open>
  Claim C3. For an allocation request in a store whose search start index lies in the
  ephemeral region and whose occupied ephemeral slots were started no later than the
  current simulation time: when some ephemeral slot is free, the index of a free
  ephemeral slot is returned; when none is free and \<open>force\<close> is off, the none-index
  is returned with the store unchanged, and the air-bubble creator then leaves the store
  as it was; when none is free and \<open>force\<close> is on, an occupied ephemeral slot is
  returned whose lifetime (now minus start time) is greatest among all ephemeral slots.
\<close>

theorem FindFreeEphemeralParticle_spec:
  assumes wf: "pool_wf s" and nf: "no_future_start now s"
  shows "\<exists>p s'. FindFreeEphemeralParticle now force s = Some (p, s')
          \<and> (if \<exists>q \<in> ephemeral_region s. GetEphemeralType s q = NoneEphemeral
             then p \<in> ephemeral_region s \<and> GetEphemeralType s p = NoneEphemeral
             else if \<not> force
             then p = NoneElementIndex \<and> s' = s
                  \<and> CreateEphemeralParticleAirBubble calcCoeff gp position material now planeId s
                      = Some s
             else p \<in> ephemeral_region s \<and> GetEphemeralType s p \<noteq> NoneEphemeral
                  \<and> (\<forall>q \<in> ephemeral_region s.
                        now - mEphemeralStartTimeBuffer s ! q
                          \<le> now - mEphemeralStartTimeBuffer s ! p))"
proof (cases "\<exists>q \<in> ephemeral_region s. GetEphemeralType s q = NoneEphemeral")
  case True
  obtain p where "FindFree_loop s now (mFreeEphemeralParticleSearchStartIndex s) NoneElementIndex 0
             = Some (Found p)" "p \<in> ephemeral_region s" "GetEphemeralType s p = NoneEphemeral"
    using FindFree_loop_some_free[OF wf True] by blast
  with True show ?thesis
    by (simp add: FindFreeEphemeralParticle_def)
next
  case False
  then have full: "\<forall>q \<in> ephemeral_region s. GetEphemeralType s q \<noteq> NoneEphemeral"
    by blast
  obtain oldest where loop: "FindFree_loop s now (mFreeEphemeralParticleSearchStartIndex s) NoneElementIndex 0
             = Some (WentAround oldest)"
    and reg: "oldest \<in> ephemeral_region s"
    and old: "\<forall>q \<in> ephemeral_region s. lifetime_of s now q \<le> lifetime_of s now oldest"
    using FindFree_loop_full_pool[OF wf nf full] by blast
  show ?thesis
  proof (cases force)
    case True
    with False loop reg old full show ?thesis
      by (simp add: FindFreeEphemeralParticle_def lifetime_of_def)
  next
    case nforce: False
    have "FindFreeEphemeralParticle now False s = Some (NoneElementIndex, s)"
      using loop by (simp add: FindFreeEphemeralParticle_def)
    then have "CreateEphemeralParticleAirBubble calcCoeff gp position material now planeId s = Some s"
      by (simp add: CreateEphemeralParticleAirBubble_def)
    with False nforce loop show ?thesis
      by (simp add: FindFreeEphemeralParticle_def)
  qed
qed

subsection \<open>A concrete store\<close>

definition ex_material :: StructuralMaterial where
  "ex_material = \<lparr>Mass = 1, WaterVolumeFill = 0, HeatCapacity = 1, IgnitionTemperature = 500\<rparr>"

definition ex_gp :: GameParameters where
  "ex_gp = \<lparr>MaxBurningParticles = 2, CombustionSpeedAdjustment = 1, CombustionHeatAdjustment = 1,
     IgnitionTemperatureAdjustment = 1, WaterDensityAdjustment = 1, WaterMass = 1000,
     IgnitionTemperatureHighWatermark = 0, IgnitionTemperatureLowWatermark = -30,
     SmotheringWaterLowWatermark = 1/100, SmotheringWaterHighWatermark = 1/10,
     SmotheringDecayHighWatermark = 1/100, SmotheringDecayLowWatermark = 1/1000,
     GravityNormalized = (0, -1), InitialTemperature = 298\<rparr>"

text \<open>A store with one ship point and two ephemeral slots, both holding debris.\<close>

definition ex_full_pool :: Points where
  "ex_full_pool =
     \<lparr>mShipPointCount = 1, mEphemeralPointCount = 2,
      mMaterialsBuffer = [ex_material, ex_material, ex_material],
      mPositionBuffer = [(0, 0), (0, 0), (0, 0)],
      mVelocityBuffer = [(0, 0), (0, 0), (0, 0)],
      mAugmentedMaterialMassBuffer = [1, 1, 1],
      mMassBuffer = [1, 1, 1],
      mDecayBuffer = [1, 1, 1],
      mIntegrationFactorTimeCoefficientBuffer = [1, 1, 1],
      mIntegrationFactorBuffer = [(0, 0), (0, 0), (0, 0)],
      mMaterialWaterVolumeFillBuffer = [0, 0, 0],
      mWaterBuffer = [0, 0, 0],
      mTemperatureBuffer = [298, 298, 298],
      mMaterialHeatCapacityBuffer = [1, 1, 1],
      mMaterialIgnitionTemperatureBuffer = [500, 500, 500],
      mCombustionStateBuffer = [CombustionState0, CombustionState0, CombustionState0],
      mEphemeralTypeBuffer = [NoneEphemeral, Debris, Debris],
      mEphemeralStartTimeBuffer = [0, 3, 1],
      mEphemeralMaxLifetimeBuffer = [0, 10, 10],
      mConnectedSpringsBuffer = [[], [], []],
      mPlaneIdBuffer = [0, 0, 0],
      mIsPinnedBuffer = [False, False, False],
      mBurningPoints = [],
      mIgnitionCandidates = [],
      mFreeEphemeralParticleSearchStartIndex = 1,
      mCurrentNumMechanicalDynamicsIterations = 1,
      mGameEventHandler = []\<rparr>"

lemma ex_full_pool_wf: "pool_wf ex_full_pool"
  by (simp add: pool_wf_def ex_full_pool_def mAllPointCount_def NoneElementIndex_def)

lemma ex_full_pool_region: "ephemeral_region ex_full_pool = {1, 2}"
  by (auto simp: ephemeral_region_def ex_full_pool_def mAllPointCount_def)

lemma ex_full_pool_no_future: "no_future_start 5 ex_full_pool"
  unfolding no_future_start_def ex_full_pool_region
  by (simp add: ex_full_pool_def GetEphemeralType_def)

theorem FindFreeEphemeralParticle_spec_witness:
  "pool_wf ex_full_pool \<and> no_future_start 5 ex_full_pool
   \<and> fst (the (FindFreeEphemeralParticle 5 True ex_full_pool)) = 2
   \<and> FindFreeEphemeralParticle 5 False ex_full_pool = Some (NoneElementIndex, ex_full_pool)"
proof -
  have t: "FindFree_loop ex_full_pool 5 1 NoneElementIndex 0 = Some (WentAround 2)"
    by (simp add: FindFree_loop.simps ex_full_pool_def GetEphemeralType_def incr32_def
        mAllPointCount_def Let_def)
  have a: "fst (the (FindFreeEphemeralParticle 5 True ex_full_pool)) = 2"
    using t by (simp add: FindFreeEphemeralParticle_def ex_full_pool_def)
  have b: "FindFreeEphemeralParticle 5 False ex_full_pool = Some (NoneElementIndex, ex_full_pool)"
    using FindFreeEphemeralParticle_spec[OF ex_full_pool_wf ex_full_pool_no_future, of False]
    unfolding ex_full_pool_region
    by (auto simp: GetEphemeralType_def ex_full_pool_def)
  show ?thesis using ex_full_pool_wf ex_full_pool_no_future a b by simp
qed

lemma FindFreeEphemeralParticle_cases:
  assumes wf: "pool_wf s" and nf: "no_future_start now s"
  shows "\<exists>p s'. FindFreeEphemeralParticle now force s = Some (p, s')
          \<and> ((p \<in> ephemeral_region s \<and> s' = advance_search_start s p)
             \<or> (\<not> force \<and> p = NoneElementIndex \<and> s' = s))"
proof (cases "\<exists>q \<in> ephemeral_region s. GetEphemeralType s q = NoneEphemeral")
  case True
  obtain p where "FindFree_loop s now (mFreeEphemeralParticleSearchStartIndex s) NoneElementIndex 0
             = Some (Found p)" "p \<in> ephemeral_region s"
    using FindFree_loop_some_free[OF wf True] by blast
  then show ?thesis
    by (simp add: FindFreeEphemeralParticle_def)
next
  case False
  then have full: "\<forall>q \<in> ephemeral_region s. GetEphemeralType s q \<noteq> NoneEphemeral"
    by blast
  obtain oldest where "FindFree_loop s now (mFreeEphemeralParticleSearchStartIndex s) NoneElementIndex 0
             = Some (WentAround oldest)" "oldest \<in> ephemeral_region s"
    using FindFree_loop_full_pool[OF wf nf full] by blast
  then show ?thesis
    by (simp add: FindFreeEphemeralParticle_def)
qed

definition pool_inv :: "real \<Rightarrow> Points \<Rightarrow> bool" where
  "pool_inv t s \<longleftrightarrow> pool_wf s \<and> no_future_start t s"

lemma pool_inv_advance:
  assumes "pool_inv t s" "p \<in> ephemeral_region s"
  shows "pool_inv t (advance_search_start s p)"
proof -
  have "pool_wf (advance_search_start s p)"
    using assms advance_search_start_in_region by (simp add: pool_inv_def)
  moreover have "no_future_start t (advance_search_start s p)"
    using assms
    by (simp add: pool_inv_def no_future_start_def ephemeral_region_def GetEphemeralType_def
        mAllPointCount_def advance_search_start_fields)
  ultimately show ?thesis by (simp add: pool_inv_def)
qed

lemma store_ephemeral_pool_fields:
  "mShipPointCount (store_ephemeral c p pos v m w T k t l pl s) = mShipPointCount s"
  "mEphemeralPointCount (store_ephemeral c p pos v m w T k t l pl s) = mEphemeralPointCount s"
  "mFreeEphemeralParticleSearchStartIndex (store_ephemeral c p pos v m w T k t l pl s)
     = mFreeEphemeralParticleSearchStartIndex s"
  "mEphemeralTypeBuffer (store_ephemeral c p pos v m w T k t l pl s)
     = (mEphemeralTypeBuffer s)[p := k]"
  "mEphemeralStartTimeBuffer (store_ephemeral c p pos v m w T k t l pl s)
     = (mEphemeralStartTimeBuffer s)[p := t]"
  by (simp_all add: store_ephemeral_def)

lemma pool_inv_store:
  assumes "pool_inv t s"
  shows "pool_inv t (store_ephemeral c p pos v m w T k t l pl s)"
proof -
  let ?s' = "store_ephemeral c p pos v m w T k t l pl s"
  have wf: "pool_wf ?s'"
    using assms
    by (simp add: pool_inv_def pool_wf_def mAllPointCount_def store_ephemeral_pool_fields)
  have "mEphemeralStartTimeBuffer ?s' ! q \<le> t"
    if "q \<in> ephemeral_region ?s'" "GetEphemeralType ?s' q \<noteq> NoneEphemeral" for q
  proof (cases "q = p")
    case True
    with that assms show ?thesis
      by (simp add: pool_inv_def pool_wf_def ephemeral_region_def mAllPointCount_def
          store_ephemeral_pool_fields)
  next
    case False
    with that assms show ?thesis
      by (simp add: pool_inv_def no_future_start_def ephemeral_region_def
          GetEphemeralType_def mAllPointCount_def store_ephemeral_pool_fields)
  qed
  then have "no_future_start t ?s'"
    by (simp add: no_future_start_def)
  with wf show ?thesis by (simp add: pool_inv_def)
qed

lemma pool_inv_FindFree:
  assumes "pool_inv t s" "FindFreeEphemeralParticle t force s = Some (p, s')"
  shows "pool_inv t s'"
proof -
  obtain p0 s0 where "FindFreeEphemeralParticle t force s = Some (p0, s0)"
    and c: "(p0 \<in> ephemeral_region s \<and> s0 = advance_search_start s p0)
             \<or> (\<not> force \<and> p0 = NoneElementIndex \<and> s0 = s)"
    using FindFreeEphemeralParticle_cases[of s t force] assms(1)
    by (auto simp: pool_inv_def)
  with assms(2) have "p0 = p" "s0 = s'" by auto
  with c assms(1) show ?thesis
    using pool_inv_advance by auto
qed

lemma pool_inv_mono: "pool_inv t s \<Longrightarrow> t \<le> t' \<Longrightarrow> pool_inv t' s"
  by (fastforce simp: pool_inv_def no_future_start_def)

lemma pool_inv_expire:
  assumes "pool_inv t s"
  shows "pool_inv t (ExpireEphemeralParticle p s)"
proof -
  let ?s' = "ExpireEphemeralParticle p s"
  have wf: "pool_wf ?s'"
    using assms
    by (simp add: pool_inv_def pool_wf_def mAllPointCount_def ExpireEphemeralParticle_def)
  have "mEphemeralStartTimeBuffer ?s' ! q \<le> t"
    if "q \<in> ephemeral_region ?s'" "GetEphemeralType ?s' q \<noteq> NoneEphemeral" for q
  proof (cases "q = p")
    case True
    with that assms show ?thesis
      by (simp add: pool_inv_def pool_wf_def ephemeral_region_def mAllPointCount_def
          GetEphemeralType_def ExpireEphemeralParticle_def)
  next
    case False
    with that assms show ?thesis
      by (simp add: pool_inv_def no_future_start_def ephemeral_region_def
          GetEphemeralType_def mAllPointCount_def ExpireEphemeralParticle_def)
  qed
  then have "no_future_start t ?s'"
    by (simp add: no_future_start_def)
  with wf show ?thesis by (simp add: pool_inv_def)
qed

text \<open>
  The states an ephemeral pool can reach, with the simulation time at which each is
  reached. The pool starts with every ephemeral slot free and the search start index in
  the ephemeral region; simulation time never runs backwards; particles are created at
  the current simulation time by the three creators and expired one slot at a time;
  anything else the program does leaves the pool's own fields as they are.
\<close>

definition same_pool :: "Points \<Rightarrow> Points \<Rightarrow> bool" where
  "same_pool s s' \<longleftrightarrow>
     mShipPointCount s' = mShipPointCount s
     \<and> mEphemeralPointCount s' = mEphemeralPointCount s
     \<and> mEphemeralTypeBuffer s' = mEphemeralTypeBuffer s
     \<and> mEphemeralStartTimeBuffer s' = mEphemeralStartTimeBuffer s
     \<and> mFreeEphemeralParticleSearchStartIndex s' = mFreeEphemeralParticleSearchStartIndex s"

inductive pool_reachable :: "real \<Rightarrow> Points \<Rightarrow> bool" where
  initial:
    "pool_wf s \<Longrightarrow> (\<forall>q \<in> ephemeral_region s. GetEphemeralType s q = NoneEphemeral)
     \<Longrightarrow> pool_reachable t s"
| time_passes:
    "pool_reachable t s \<Longrightarrow> t \<le> t' \<Longrightarrow> pool_reachable t' s"
| air_bubble:
    "pool_reachable t s
     \<Longrightarrow> CreateEphemeralParticleAirBubble calcCoeff gp position material t planeId s = Some s'
     \<Longrightarrow> pool_reachable t s'"
| debris:
    "pool_reachable t s
     \<Longrightarrow> CreateEphemeralParticleDebris calcCoeff gp position velocity material t maxLifetime
           planeId s = Some s'
     \<Longrightarrow> pool_reachable t s'"
| sparkle:
    "pool_reachable t s
     \<Longrightarrow> CreateEphemeralParticleSparkle calcCoeff position velocity material t maxLifetime
           planeId s = Some s'
     \<Longrightarrow> pool_reachable t s'"
| expire:
    "pool_reachable t s \<Longrightarrow> pool_reachable t (ExpireEphemeralParticle p s)"
| other:
    "pool_reachable t s \<Longrightarrow> same_pool s s' \<Longrightarrow> pool_reachable t s'"

lemma pool_inv_same: "pool_inv t s \<Longrightarrow> same_pool s s' \<Longrightarrow> pool_inv t s'"
  by (simp add: pool_inv_def pool_wf_def no_future_start_def ephemeral_region_def
      GetEphemeralType_def mAllPointCount_def same_pool_def)

lemma pool_reachable_inv: "pool_reachable t s \<Longrightarrow> pool_inv t s"
proof (induction rule: pool_reachable.induct)
  case (initial s t)
  then show ?case by (simp add: pool_inv_def no_future_start_def)
next
  case (time_passes t s t')
  then show ?case using pool_inv_mono by blast
next
  case (air_bubble t s calcCoeff gp position material planeId s')
  obtain p s1 where f: "FindFreeEphemeralParticle t False s = Some (p, s1)"
    using air_bubble.hyps(2)
    by (auto simp: CreateEphemeralParticleAirBubble_def split: option.splits)
  have s1: "pool_inv t s1"
    using pool_inv_FindFree[OF air_bubble.IH f] .
  have "s' = s1 \<or> s' = store_ephemeral calcCoeff p position (0, 0) material
      (WaterVolumeFill material) (InitialTemperature gp) AirBubble t FloatMax planeId s1"
    using air_bubble.hyps(2) f
    by (auto simp: CreateEphemeralParticleAirBubble_def split: if_splits)
  then show ?case
    by (elim disjE) (simp_all add: s1 pool_inv_store[OF s1])
next
  case (debris t s calcCoeff gp position velocity material maxLifetime planeId s')
  obtain p s1 where f: "FindFreeEphemeralParticle t True s = Some (p, s1)"
    using debris.hyps(2)
    by (auto simp: CreateEphemeralParticleDebris_def split: option.splits)
  have s1: "pool_inv t s1"
    using pool_inv_FindFree[OF debris.IH f] .
  have "s' = store_ephemeral calcCoeff p position velocity material
      0 (InitialTemperature gp) Debris t maxLifetime planeId s1"
    using debris.hyps(2) f
    by (auto simp: CreateEphemeralParticleDebris_def)
  then show ?case
    by (simp add: pool_inv_store[OF s1])
next
  case (sparkle t s calcCoeff position velocity material maxLifetime planeId s')
  obtain p s1 where f: "FindFreeEphemeralParticle t True s = Some (p, s1)"
    using sparkle.hyps(2)
    by (auto simp: CreateEphemeralParticleSparkle_def split: option.splits)
  have s1: "pool_inv t s1"
    using pool_inv_FindFree[OF sparkle.IH f] .
  have "s' = store_ephemeral calcCoeff p position velocity material
      0 (77315 / 100) Sparkle t maxLifetime planeId s1"
    using sparkle.hyps(2) f
    by (auto simp: CreateEphemeralParticleSparkle_def)
  then show ?case
    by (simp add: pool_inv_store[OF s1])
next
  case (expire t s p)
  then show ?case using pool_inv_expire by blast
next
  case (other t s s')
  then show ?case using pool_inv_same by blast
qed

text \<open>
  Claim C10. In every state the pool can reach, the free-slot search start index lies in
  the ephemeral region, and every allocation made there (forced or not) returns, leaving
  a store whose search start index again lies in the ephemeral region.
\<close>

theorem search_start_in_region:
  assumes "pool_reachable t s"
  shows "mShipPointCount s \<le> mFreeEphemeralParticleSearchStartIndex s
         \<and> mFreeEphemeralParticleSearchStartIndex s < mAllPointCount s
         \<and> (\<forall>force. \<exists>p s'. FindFreeEphemeralParticle t force s = Some (p, s')
               \<and> mShipPointCount s' \<le> mFreeEphemeralParticleSearchStartIndex s'
               \<and> mFreeEphemeralParticleSearchStartIndex s' < mAllPointCount s')"
proof -
  have inv: "pool_inv t s"
    using assms by (rule pool_reachable_inv)
  have after: "\<exists>p s'. FindFreeEphemeralParticle t force s = Some (p, s')
               \<and> mShipPointCount s' \<le> mFreeEphemeralParticleSearchStartIndex s'
               \<and> mFreeEphemeralParticleSearchStartIndex s' < mAllPointCount s'" for force
  proof -
    obtain p s' where r: "FindFreeEphemeralParticle t force s = Some (p, s')"
      using FindFreeEphemeralParticle_cases[of s t force] inv
      by (auto simp: pool_inv_def)
    then have "pool_inv t s'"
      using pool_inv_FindFree[OF inv] by blast
    with r show ?thesis
      by (auto simp: pool_inv_def pool_wf_def)
  qed
  from inv after show ?thesis
    by (simp add: pool_inv_def pool_wf_def)
qed

definition ex_free_pool :: Points where
  "ex_free_pool =
     ex_full_pool\<lparr>mEphemeralTypeBuffer := [NoneEphemeral, NoneEphemeral, NoneEphemeral],
                  mFreeEphemeralParticleSearchStartIndex := 2\<rparr>"

definition ex_after_debris :: Points where
  "ex_after_debris =
     store_ephemeral (\<lambda>n. 1 / n) 2 (0, 0) (1, 1) ex_material 0 298 Debris 7 10 0
       (ex_free_pool\<lparr>mFreeEphemeralParticleSearchStartIndex := 1\<rparr>)"

lemma ex_free_pool_reachable: "pool_reachable 7 ex_free_pool"
proof (rule pool_reachable.initial)
  show "pool_wf ex_free_pool"
    by (simp add: pool_wf_def ex_free_pool_def ex_full_pool_def mAllPointCount_def
        NoneElementIndex_def)
  have "ephemeral_region ex_free_pool = {1, 2}"
    by (auto simp: ephemeral_region_def ex_free_pool_def ex_full_pool_def mAllPointCount_def)
  then show "\<forall>q \<in> ephemeral_region ex_free_pool. GetEphemeralType ex_free_pool q = NoneEphemeral"
    by (simp add: GetEphemeralType_def ex_free_pool_def ex_full_pool_def)
qed

lemma ex_debris_created:
  "CreateEphemeralParticleDebris (\<lambda>n. 1 / n) ex_gp (0, 0) (1, 1) ex_material 7 10 0 ex_free_pool
     = Some ex_after_debris"
proof -
  have "FindFree_loop ex_free_pool 7 2 NoneElementIndex 0 = Some (Found 2)"
    by (subst FindFree_loop.simps)
       (simp add: ex_free_pool_def ex_full_pool_def GetEphemeralType_def)
  then have "FindFreeEphemeralParticle 7 True ex_free_pool
     = Some (2, ex_free_pool\<lparr>mFreeEphemeralParticleSearchStartIndex := 1\<rparr>)"
    by (simp add: FindFreeEphemeralParticle_def advance_search_start_def incr32_def
        mAllPointCount_def ex_free_pool_def ex_full_pool_def)
  then show ?thesis
    by (simp add: CreateEphemeralParticleDebris_def ex_after_debris_def ex_gp_def)
qed

lemma ex_after_debris_reachable: "pool_reachable 7 ex_after_debris"
  using pool_reachable.debris[OF ex_free_pool_reachable ex_debris_created] .

theorem search_start_in_region_witness:
  "pool_reachable 7 ex_after_debris
   \<and> mFreeEphemeralParticleSearchStartIndex ex_after_debris = 1
   \<and> mShipPointCount ex_after_debris \<le> mFreeEphemeralParticleSearchStartIndex ex_after_debris
   \<and> mFreeEphemeralParticleSearchStartIndex ex_after_debris < mAllPointCount ex_after_debris"
proof -
  have "mFreeEphemeralParticleSearchStartIndex ex_after_debris = 1"
    by (simp add: ex_after_debris_def store_ephemeral_def)
  with search_start_in_region[OF ex_after_debris_reachable] ex_after_debris_reachable
  show ?thesis by simp
qed

subsection \<open>\<open>Detach\<close>\<close>

text \<open>
  The detach handler is a callback registered by the ship; it is a parameter here, absent
  when no handler is registered. The option flags are a bit set in the program.
\<close>

record DetachOptions =
  GenerateDebris :: bool
  FireDestroyEvent :: bool

type_synonym DetachHandler =
  "ElementIndex \<Rightarrow> bool \<Rightarrow> bool \<Rightarrow> real \<Rightarrow> GameParameters \<Rightarrow> Points \<Rightarrow> Points"

definition Detach ::
  "DetachHandler option \<Rightarrow> ElementIndex \<Rightarrow> vec2f \<Rightarrow> DetachOptions \<Rightarrow> real \<Rightarrow> GameParameters
   \<Rightarrow> Points \<Rightarrow> Points"
where
  "Detach mDetachHandler pointElementIndex velocity detachOptions currentSimulationTime
       gameParameters s =
     (let s1 = (case mDetachHandler of
                  None \<Rightarrow> s
                | Some handler \<Rightarrow>
                    handler pointElementIndex (GenerateDebris detachOptions)
                      (FireDestroyEvent detachOptions) currentSimulationTime gameParameters s)
      in if \<not> mIsPinnedBuffer s1 ! pointElementIndex
         then s1\<lparr>mVelocityBuffer := (mVelocityBuffer s1)[pointElementIndex := velocity]\<rparr>
         else s1)"

subsection \<open>\<open>UpdateMasses\<close>\<close>

definition mElementCount :: "Points \<Rightarrow> nat" where
  "mElementCount s = mAllPointCount s"

definition GetWater :: "Points \<Rightarrow> ElementIndex \<Rightarrow> real" where
  "GetWater s i = mWaterBuffer s ! i"

definition GetMaterialWaterVolumeFill :: "Points \<Rightarrow> ElementIndex \<Rightarrow> real" where
  "GetMaterialWaterVolumeFill s i = mMaterialWaterVolumeFillBuffer s ! i"

text \<open>
  One iteration of the loop of \<open>UpdateMasses\<close>, and the loop over every element of
  the container. The assertion that the mass is positive is a debug-build check and
  is not part of the model.
\<close>

definition UpdateMasses_step :: "real \<Rightarrow> ElementIndex \<Rightarrow> Points \<Rightarrow> Points" where
  "UpdateMasses_step densityAdjustedWaterMass i s =
     (let mass = mAugmentedMaterialMassBuffer s ! i
                 + min (GetWater s i) (GetMaterialWaterVolumeFill s i) * densityAdjustedWaterMass
      in s\<lparr>mMassBuffer := (mMassBuffer s)[i := mass],
            mIntegrationFactorBuffer :=
              (mIntegrationFactorBuffer s)
                [i := (mIntegrationFactorTimeCoefficientBuffer s ! i / mass,
                       mIntegrationFactorTimeCoefficientBuffer s ! i / mass)]\<rparr>)"

definition UpdateMasses :: "GameParameters \<Rightarrow> Points \<Rightarrow> Points" where
  "UpdateMasses gameParameters s =
     (let densityAdjustedWaterMass = WaterMass gameParameters * WaterDensityAdjustment gameParameters
      in fold (UpdateMasses_step densityAdjustedWaterMass) [0 ..< mElementCount s] s)"

definition current_mass :: "real \<Rightarrow> Points \<Rightarrow> ElementIndex \<Rightarrow> real" where
  "current_mass waterDensity s i =
     mAugmentedMaterialMassBuffer s ! i
     + min (mWaterBuffer s ! i) (mMaterialWaterVolumeFillBuffer s ! i) * waterDensity"

lemma UpdateMasses_loop:
  "\<exists>m f. fold (UpdateMasses_step d) [0 ..< n] s
           = s\<lparr>mMassBuffer := m, mIntegrationFactorBuffer := f\<rparr>
         \<and> length m = length (mMassBuffer s)
         \<and> length f = length (mIntegrationFactorBuffer s)
         \<and> (\<forall>i < n. i < length m \<longrightarrow> m ! i = current_mass d s i)
         \<and> (\<forall>i < n. i < length f \<longrightarrow>
               f ! i = (mIntegrationFactorTimeCoefficientBuffer s ! i / current_mass d s i,
                        mIntegrationFactorTimeCoefficientBuffer s ! i / current_mass d s i))"
proof (induction n)
  case 0
  show ?case
    by (rule exI[of _ "mMassBuffer s"], rule exI[of _ "mIntegrationFactorBuffer s"]) simp
next
  case (Suc n)
  then obtain m f where
    eq: "fold (UpdateMasses_step d) [0 ..< n] s = s\<lparr>mMassBuffer := m, mIntegrationFactorBuffer := f\<rparr>"
    and lm: "length m = length (mMassBuffer s)"
    and lf: "length f = length (mIntegrationFactorBuffer s)"
    and ms: "\<forall>i < n. i < length m \<longrightarrow> m ! i = current_mass d s i"
    and fs: "\<forall>i < n. i < length f \<longrightarrow>
               f ! i = (mIntegrationFactorTimeCoefficientBuffer s ! i / current_mass d s i,
                        mIntegrationFactorTimeCoefficientBuffer s ! i / current_mass d s i)"
    by blast
  let ?c = "mIntegrationFactorTimeCoefficientBuffer s ! n / current_mass d s n"
  have step: "fold (UpdateMasses_step d) [0 ..< Suc n] s
      = s\<lparr>mMassBuffer := m[n := current_mass d s n], mIntegrationFactorBuffer := f[n := (?c, ?c)]\<rparr>"
    by (simp add: eq UpdateMasses_step_def current_mass_def GetWater_def
        GetMaterialWaterVolumeFill_def Let_def)
  have m': "\<forall>i < Suc n. i < length (m[n := current_mass d s n])
        \<longrightarrow> m[n := current_mass d s n] ! i = current_mass d s i"
    using ms by (auto simp: nth_list_update less_Suc_eq)
  have f': "\<forall>i < Suc n. i < length (f[n := (?c, ?c)]) \<longrightarrow>
               f[n := (?c, ?c)] ! i
               = (mIntegrationFactorTimeCoefficientBuffer s ! i / current_mass d s i,
                  mIntegrationFactorTimeCoefficientBuffer s ! i / current_mass d s i)"
    using fs by (auto simp: nth_list_update less_Suc_eq)
  show ?case
    apply (rule exI[of _ "m[n := current_mass d s n]"])
    apply (rule exI[of _ "f[n := (?c, ?c)]"])
    using step lm lf m' f' by simp
qed

text \<open>
  Claim C6. In a store whose mass and integration-factor buffers have one cell per
  element, \<open>UpdateMasses\<close> sets the mass of every element to its augmented material
  mass plus the smaller of its water content and its material's water volume fill, times
  the water mass constant scaled by the density adjustment; it sets both components of
  the integration factor to the integration time coefficient divided by that mass; and
  the resulting store differs from the original in those two buffers only.
\<close>

theorem UpdateMasses_spec:
  assumes "length (mMassBuffer s) = mElementCount s"
    and "length (mIntegrationFactorBuffer s) = mElementCount s"
  shows "(\<forall>i < mElementCount s.
            mMassBuffer (UpdateMasses gp s) ! i
              = mAugmentedMaterialMassBuffer s ! i
                + min (mWaterBuffer s ! i) (mMaterialWaterVolumeFillBuffer s ! i)
                  * (WaterMass gp * WaterDensityAdjustment gp)
          \<and> mIntegrationFactorBuffer (UpdateMasses gp s) ! i
              = (mIntegrationFactorTimeCoefficientBuffer s ! i / mMassBuffer (UpdateMasses gp s) ! i,
                 mIntegrationFactorTimeCoefficientBuffer s ! i / mMassBuffer (UpdateMasses gp s) ! i))
         \<and> UpdateMasses gp s
             = s\<lparr>mMassBuffer := mMassBuffer (UpdateMasses gp s),
                  mIntegrationFactorBuffer := mIntegrationFactorBuffer (UpdateMasses gp s)\<rparr>
         \<and> length (mMassBuffer (UpdateMasses gp s)) = mElementCount s
         \<and> length (mIntegrationFactorBuffer (UpdateMasses gp s)) = mElementCount s"
proof -
  let ?d = "WaterMass gp * WaterDensityAdjustment gp"
  obtain m f where
    eq: "fold (UpdateMasses_step ?d) [0 ..< mElementCount s] s
           = s\<lparr>mMassBuffer := m, mIntegrationFactorBuffer := f\<rparr>"
    and lm: "length m = length (mMassBuffer s)"
    and lf: "length f = length (mIntegrationFactorBuffer s)"
    and ms: "\<forall>i < mElementCount s. i < length m \<longrightarrow> m ! i = current_mass ?d s i"
    and fs: "\<forall>i < mElementCount s. i < length f \<longrightarrow>
               f ! i = (mIntegrationFactorTimeCoefficientBuffer s ! i / current_mass ?d s i,
                        mIntegrationFactorTimeCoefficientBuffer s ! i / current_mass ?d s i)"
    using UpdateMasses_loop[of ?d "mElementCount s" s] by blast
  have u: "UpdateMasses gp s = s\<lparr>mMassBuffer := m, mIntegrationFactorBuffer := f\<rparr>"
    using eq by (simp add: UpdateMasses_def)
  show ?thesis
    using assms lm lf ms fs by (simp add: u current_mass_def)
qed

theorem UpdateMasses_spec_witness:
  "length (mMassBuffer ex_full_pool) = mElementCount ex_full_pool
   \<and> length (mIntegrationFactorBuffer ex_full_pool) = mElementCount ex_full_pool
   \<and> mMassBuffer (UpdateMasses ex_gp (ex_full_pool\<lparr>mWaterBuffer := [2, 0, 0],
          mMaterialWaterVolumeFillBuffer := [1/2, 0, 0]\<rparr>)) ! 0 = 501"
proof -
  let ?s = "ex_full_pool\<lparr>mWaterBuffer := [2, 0, 0], mMaterialWaterVolumeFillBuffer := [1/2, 0, 0]\<rparr>"
  have a: "length (mMassBuffer ?s) = mElementCount ?s"
    and b: "length (mIntegrationFactorBuffer ?s) = mElementCount ?s"
    by (simp_all add: ex_full_pool_def mElementCount_def mAllPointCount_def)
  have c: "(0::nat) < mElementCount ?s"
    by (simp add: ex_full_pool_def mElementCount_def mAllPointCount_def)
  have "mMassBuffer (UpdateMasses ex_gp ?s) ! 0 = 501"
    using UpdateMasses_spec[OF a b, of ex_gp] c
    by (simp add: ex_full_pool_def ex_gp_def)
  then show ?thesis
    using a b by (simp add: ex_full_pool_def mElementCount_def mAllPointCount_def)
qed

text \<open>
  Claim C7. \<open>Detach\<close> first invokes the detach handler, with the point, the two option
  flags, the simulation time and the game parameters (with no handler registered the store
  is passed on as it is), and then, reading the pin flag from the store the handler left,
  writes the supplied velocity into the particle's velocity cell exactly when the particle
  is not pinned. For a pinned particle the result is the store the handler left, so its
  velocity cell keeps the value it had there. No other velocity cell and no other buffer
  is written by \<open>Detach\<close> itself, and \<open>Detach\<close> is a total function: it has no failing
  branch.
\<close>

theorem Detach_spec:
  "(let s1 = (case h of
                None \<Rightarrow> s
              | Some handler \<Rightarrow>
                  handler p (GenerateDebris opts) (FireDestroyEvent opts) now gp s);
        s' = Detach h p v opts now gp s
    in (p < length (mVelocityBuffer s1)
          \<longrightarrow> mVelocityBuffer s' ! p
                = (if mIsPinnedBuffer s1 ! p then mVelocityBuffer s1 ! p else v))
       \<and> (mIsPinnedBuffer s1 ! p \<longrightarrow> s' = s1)
       \<and> (\<forall>q. q \<noteq> p \<longrightarrow> mVelocityBuffer s' ! q = mVelocityBuffer s1 ! q)
       \<and> s' = s1\<lparr>mVelocityBuffer := mVelocityBuffer s'\<rparr>
       \<and> mIsPinnedBuffer s' = mIsPinnedBuffer s1)"
  by (simp add: Detach_def Let_def)

text \<open>
  Two handlers: one that cuts the springs of the detached point, and one that pins it.
  With the second the velocity is not written although the point was not pinned before
  the call.
\<close>

definition ex_detach_handler :: DetachHandler where
  "ex_detach_handler pointElementIndex generateDebris fireDestroyEvent currentSimulationTime
       gameParameters s =
     s\<lparr>mConnectedSpringsBuffer := (mConnectedSpringsBuffer s)[pointElementIndex := []]\<rparr>"

definition ex_pinning_handler :: DetachHandler where
  "ex_pinning_handler pointElementIndex generateDebris fireDestroyEvent currentSimulationTime
       gameParameters s =
     s\<lparr>mIsPinnedBuffer := (mIsPinnedBuffer s)[pointElementIndex := True]\<rparr>"

theorem Detach_spec_witness:
  "mIsPinnedBuffer ex_full_pool ! 0 = False
   \<and> mVelocityBuffer ex_full_pool ! 0 = (0, 0)
   \<and> mVelocityBuffer (Detach None 0 (3, 4)
         \<lparr>GenerateDebris = True, FireDestroyEvent = False\<rparr> 7 ex_gp ex_full_pool) ! 0 = (3, 4)
   \<and> mVelocityBuffer (Detach (Some ex_detach_handler) 0 (3, 4)
         \<lparr>GenerateDebris = True, FireDestroyEvent = False\<rparr> 7 ex_gp ex_full_pool) ! 0 = (3, 4)
   \<and> mConnectedSpringsBuffer (Detach (Some ex_detach_handler) 0 (3, 4)
         \<lparr>GenerateDebris = True, FireDestroyEvent = False\<rparr> 7 ex_gp ex_full_pool)
       = (mConnectedSpringsBuffer ex_full_pool)[0 := []]
   \<and> Detach (Some ex_pinning_handler) 0 (3, 4)
         \<lparr>GenerateDebris = True, FireDestroyEvent = False\<rparr> 7 ex_gp ex_full_pool
       = ex_full_pool\<lparr>mIsPinnedBuffer := [True, False, False]\<rparr>
   \<and> mVelocityBuffer (Detach (Some ex_detach_handler) 0 (3, 4)
         \<lparr>GenerateDebris = True, FireDestroyEvent = False\<rparr> 7 ex_gp
         (ex_full_pool\<lparr>mIsPinnedBuffer := [True, False, False]\<rparr>)) ! 0 = (0, 0)"
proof -
  let ?o = "\<lparr>GenerateDebris = True, FireDestroyEvent = False\<rparr>"
  let ?s = "ex_full_pool\<lparr>mIsPinnedBuffer := [True, False, False]\<rparr>"
  have a: "mIsPinnedBuffer ex_full_pool ! 0 = False" "mVelocityBuffer ex_full_pool ! 0 = (0, 0)"
    by (simp_all add: ex_full_pool_def)
  have b: "mVelocityBuffer (Detach None 0 (3, 4) ?o 7 ex_gp ex_full_pool) ! 0 = (3, 4)"
    using Detach_spec[where h = None and s = ex_full_pool and p = 0 and opts = ?o and now = 7
        and gp = ex_gp and v = "(3, 4)"]
    by (simp add: Let_def ex_full_pool_def)
  have c: "mVelocityBuffer (Detach (Some ex_detach_handler) 0 (3, 4) ?o 7 ex_gp ex_full_pool) ! 0
        = (3, 4)
      \<and> mConnectedSpringsBuffer (Detach (Some ex_detach_handler) 0 (3, 4) ?o 7 ex_gp ex_full_pool)
        = (mConnectedSpringsBuffer ex_full_pool)[0 := []]"
  proof -
    let ?d = "Detach (Some ex_detach_handler) 0 (3, 4) ?o 7 ex_gp ex_full_pool"
    let ?s1 = "ex_detach_handler 0 True False 7 ex_gp ex_full_pool"
    have f: "mVelocityBuffer ?d ! 0 = (3, 4)"
      and g: "?d = ?s1\<lparr>mVelocityBuffer := mVelocityBuffer ?d\<rparr>"
      using Detach_spec[where h = "Some ex_detach_handler" and s = ex_full_pool and p = 0
          and opts = ?o and now = 7 and gp = ex_gp and v = "(3, 4)"]
      by (simp_all add: Let_def ex_detach_handler_def ex_full_pool_def)
    have "mConnectedSpringsBuffer ?d
        = mConnectedSpringsBuffer (?s1\<lparr>mVelocityBuffer := mVelocityBuffer ?d\<rparr>)"
      by (rule arg_cong[OF g])
    then have "mConnectedSpringsBuffer ?d = (mConnectedSpringsBuffer ex_full_pool)[0 := []]"
      by (simp add: ex_detach_handler_def)
    with f show ?thesis by simp
  qed
  have d: "Detach (Some ex_pinning_handler) 0 (3, 4) ?o 7 ex_gp ex_full_pool = ?s"
    using Detach_spec[where h = "Some ex_pinning_handler" and s = ex_full_pool and p = 0 and opts = ?o and now = 7
        and gp = ex_gp and v = "(3, 4)"]
    by (simp add: Let_def ex_pinning_handler_def ex_full_pool_def)
  have e: "mVelocityBuffer (Detach (Some ex_detach_handler) 0 (3, 4) ?o 7 ex_gp ?s) ! 0 = (0, 0)"
    using Detach_spec[where h = "Some ex_detach_handler" and s = "?s" and p = 0 and opts = ?o and now = 7
        and gp = ex_gp and v = "(3, 4)"]
    by (simp add: Let_def ex_detach_handler_def ex_full_pool_def)
  from a b c d e show ?thesis by simp
qed

section \<open>The game controller\<close>

text \<open>
  The controller drives collaborators whose code is not among the sources: the parameter
  smoothers, the world, the event dispatcher and the controller's own notification state
  machines. Their states are type parameters and their operations are the fields of
  \<open>Collaborators\<close>. Every call the controller makes to a collaborator is also recorded,
  in order, in \<open>calls\<close>. Wall-clock readings are arguments; the durations the
  controller accumulates for its statistics are not modelled.
\<close>

datatype Call =
  ParameterSmoother_Update_call nat
  | World_Update_call
  | GameEventDispatcher_Flush_call
  | UpdateStateMachines_call
  | PublishStats_call
  | SwapRenderBuffers_call
  | InternalRender_call

record ('ps, 'w, 'e, 'm) GameController =
  mIsPaused :: bool
  mIsMoveToolEngaged :: bool
  GameWallClock_paused :: bool
  mParameterSmoothers :: "'ps list"
  mWorld :: 'w
  mGameEventDispatcher :: 'e
  mStateMachines :: 'm
  mRenderStatsStarted :: bool
  mTotalFrameCount :: nat
  mLastFrameCount :: nat
  calls :: "Call list"

record ('ps, 'w, 'e, 'm) Collaborators =
  ParameterSmoother_Update :: "real \<Rightarrow> 'ps \<Rightarrow> 'ps"
  World_Update :: "'w \<Rightarrow> 'w"
  World_GetCurrentSimulationTime :: "'w \<Rightarrow> real"
  GameEventDispatcher_Flush :: "'e \<Rightarrow> 'e"
  UpdateStateMachines :: "real \<Rightarrow> 'm \<Rightarrow> 'm"

definition SetPaused ::
  "bool \<Rightarrow> ('ps, 'w, 'e, 'm) GameController \<Rightarrow> ('ps, 'w, 'e, 'm) GameController"
where
  "SetPaused isPaused gc = gc\<lparr>GameWallClock_paused := isPaused, mIsPaused := isPaused\<rparr>"

definition InternalUpdate ::
  "('ps, 'w, 'e, 'm) Collaborators \<Rightarrow> real
   \<Rightarrow> ('ps, 'w, 'e, 'm) GameController \<Rightarrow> ('ps, 'w, 'e, 'm) GameController"
where
  "InternalUpdate c now gc =
     (let gc1 = gc\<lparr>mParameterSmoothers :=
                      map (ParameterSmoother_Update c now) (mParameterSmoothers gc),
                    calls := calls gc
                      @ map ParameterSmoother_Update_call [0 ..< length (mParameterSmoothers gc)]\<rparr>;
          gc2 = gc1\<lparr>mWorld := World_Update c (mWorld gc1),
                     calls := calls gc1 @ [World_Update_call]\<rparr>;
          gc3 = gc2\<lparr>mGameEventDispatcher := GameEventDispatcher_Flush c (mGameEventDispatcher gc2),
                     calls := calls gc2 @ [GameEventDispatcher_Flush_call]\<rparr>
      in gc3\<lparr>mStateMachines :=
                UpdateStateMachines c (World_GetCurrentSimulationTime c (mWorld gc3))
                  (mStateMachines gc3),
              calls := calls gc3 @ [UpdateStateMachines_call]\<rparr>)"

definition RunGameIteration ::
  "('ps, 'w, 'e, 'm) Collaborators \<Rightarrow> real
   \<Rightarrow> ('ps, 'w, 'e, 'm) GameController \<Rightarrow> ('ps, 'w, 'e, 'm) GameController"
where
  "RunGameIteration c now gc =
     (let gc1 = (if \<not> mIsPaused gc \<and> \<not> mIsMoveToolEngaged gc
                 then InternalUpdate c now gc else gc);
          gc2 = (if \<not> mRenderStatsStarted gc1
                 then gc1\<lparr>mRenderStatsStarted := True, mTotalFrameCount := 0,
                          mLastFrameCount := 0, calls := calls gc1 @ [PublishStats_call]\<rparr>
                 else gc1);
          gc3 = gc2\<lparr>calls := calls gc2 @ [SwapRenderBuffers_call, InternalRender_call]\<rparr>
      in gc3\<lparr>mTotalFrameCount := mTotalFrameCount gc3 + 1,
              mLastFrameCount := mLastFrameCount gc3 + 1\<rparr>)"

text \<open>
  The behaviour of an iteration while paused as the specification words it: the world is
  not updated, but every parameter smoother is processed and the queued events are
  flushed.
\<close>

definition paused_iteration_as_specified ::
  "('ps, 'w, 'e, 'm) Collaborators \<Rightarrow> real
   \<Rightarrow> ('ps, 'w, 'e, 'm) GameController \<Rightarrow> bool"
where
  "paused_iteration_as_specified c now gc \<longleftrightarrow>
     (let gc' = RunGameIteration c now gc
      in mWorld gc' = mWorld gc
         \<and> mParameterSmoothers gc' = map (ParameterSmoother_Update c now) (mParameterSmoothers gc)
         \<and> mGameEventDispatcher gc' = GameEventDispatcher_Flush c (mGameEventDispatcher gc))"

text \<open>
  A concrete controller: one smoother that counts its updates, a world that is its
  simulation time, a dispatcher holding the number of queued events, no state machines.
\<close>

definition ex_collaborators :: "(nat, real, nat, unit) Collaborators" where
  "ex_collaborators =
     \<lparr>ParameterSmoother_Update = (\<lambda>now n. n + 1),
      World_Update = (\<lambda>t. t + 1 / 50),
      World_GetCurrentSimulationTime = (\<lambda>t. t),
      GameEventDispatcher_Flush = (\<lambda>q. 0),
      UpdateStateMachines = (\<lambda>t m. m)\<rparr>"

definition ex_controller :: "(nat, real, nat, unit) GameController" where
  "ex_controller =
     \<lparr>mIsPaused = False, mIsMoveToolEngaged = False, GameWallClock_paused = False,
      mParameterSmoothers = [0], mWorld = 0, mGameEventDispatcher = 3, mStateMachines = (),
      mRenderStatsStarted = True, mTotalFrameCount = 0, mLastFrameCount = 0, calls = []\<rparr>"

theorem paused_iteration_counterexample:
  "mIsPaused (SetPaused True ex_controller)
   \<and> \<not> paused_iteration_as_specified ex_collaborators 1 (SetPaused True ex_controller)
   \<and> mParameterSmoothers (RunGameIteration ex_collaborators 1 (SetPaused True ex_controller))
       = [0]
   \<and> mGameEventDispatcher (RunGameIteration ex_collaborators 1 (SetPaused True ex_controller))
       = 3
   \<and> calls (RunGameIteration ex_collaborators 1 (SetPaused True ex_controller))
       = [SwapRenderBuffers_call, InternalRender_call]"
  by (simp add: paused_iteration_as_specified_def RunGameIteration_def SetPaused_def
      ex_controller_def ex_collaborators_def Let_def)

text \<open>
  Claim C4, as amended. While the game is paused (or the move tool is engaged), a game
  iteration makes no call to the parameter smoothers, the world, the event dispatcher or
  the state machines, and leaves their states, hence the simulation time, as they were;
  it only publishes the first statistics if they were not started, swaps the render
  buffers, renders and counts the frame. When neither holds, the iteration updates every
  parameter smoother, then the world, then flushes the events, in this order.
\<close>

theorem paused_iteration_skips_update:
  "(mIsPaused gc \<or> mIsMoveToolEngaged gc \<longrightarrow>
      (let gc' = RunGameIteration c now gc
       in mParameterSmoothers gc' = mParameterSmoothers gc
          \<and> mWorld gc' = mWorld gc
          \<and> World_GetCurrentSimulationTime c (mWorld gc') = World_GetCurrentSimulationTime c (mWorld gc)
          \<and> mGameEventDispatcher gc' = mGameEventDispatcher gc
          \<and> mStateMachines gc' = mStateMachines gc
          \<and> calls gc' = calls gc
               @ (if mRenderStatsStarted gc then [] else [PublishStats_call])
               @ [SwapRenderBuffers_call, InternalRender_call]
          \<and> mIsPaused gc' = mIsPaused gc))
   \<and> (\<not> mIsPaused gc \<and> \<not> mIsMoveToolEngaged gc \<longrightarrow>
      (let gc' = RunGameIteration c now gc
       in mParameterSmoothers gc' = map (ParameterSmoother_Update c now) (mParameterSmoothers gc)
          \<and> mWorld gc' = World_Update c (mWorld gc)
          \<and> mGameEventDispatcher gc' = GameEventDispatcher_Flush c (mGameEventDispatcher gc)
          \<and> calls gc' = calls gc
               @ map ParameterSmoother_Update_call [0 ..< length (mParameterSmoothers gc)]
               @ [World_Update_call, GameEventDispatcher_Flush_call, UpdateStateMachines_call]
               @ (if mRenderStatsStarted gc then [] else [PublishStats_call])
               @ [SwapRenderBuffers_call, InternalRender_call]))"
  by (simp add: RunGameIteration_def InternalUpdate_def Let_def)

theorem paused_iteration_skips_update_witness:
  "mIsPaused (SetPaused True ex_controller)
   \<and> mWorld (RunGameIteration ex_collaborators 1 (SetPaused True ex_controller)) = 0
   \<and> mWorld (RunGameIteration ex_collaborators 1 ex_controller) = 1 / 50
   \<and> mParameterSmoothers (RunGameIteration ex_collaborators 1 ex_controller) = [1]"
proof -
  have p: "mIsPaused (SetPaused True ex_controller)"
    by (simp add: SetPaused_def)
  have np: "\<not> mIsPaused ex_controller \<and> \<not> mIsMoveToolEngaged ex_controller"
    by (simp add: ex_controller_def)
  have "mWorld (RunGameIteration ex_collaborators 1 (SetPaused True ex_controller)) = 0"
    using paused_iteration_skips_update[of "SetPaused True ex_controller" ex_collaborators 1] p
    by (simp add: Let_def SetPaused_def ex_controller_def)
  moreover have "mWorld (RunGameIteration ex_collaborators 1 ex_controller) = 1 / 50
     \<and> mParameterSmoothers (RunGameIteration ex_collaborators 1 ex_controller) = [1]"
    using paused_iteration_skips_update[of ex_controller ex_collaborators 1] np
    by (simp add: Let_def ex_controller_def ex_collaborators_def)
  ultimately show ?thesis using p by simp
qed

section \<open>The ocean surface\<close>

text \<open>
  The number of samples, the sample spacing and the constants of the game parameters
  are fixed in headers that are not among the sources; they are the fields of
  \<open>OceanConstants\<close>.
\<close>

record OceanConstants =
  SamplesCount :: nat
  Dx :: real
  HalfMaxWorldWidth :: real
  SimulationStepTimeDuration :: real
  GravityMagnitude :: real

definition SWEHeightFieldOffset :: real where
  "SWEHeightFieldOffset = 100"

definition SWEHeightFieldAmplification :: real where
  "SWEHeightFieldAmplification = 50"

definition SWEWaveGenerationSamples :: nat where
  "SWEWaveGenerationSamples = 1"

definition SWEBoundaryConditionsSamples :: nat where
  "SWEBoundaryConditionsSamples = 1"

definition SWEOuterLayerSamples :: nat where
  "SWEOuterLayerSamples = SWEWaveGenerationSamples + SWEBoundaryConditionsSamples"

definition SWETotalSamples :: "OceanConstants \<Rightarrow> nat" where
  "SWETotalSamples k = SWEOuterLayerSamples + SamplesCount k + SWEOuterLayerSamples"

text \<open>
  Modelled from the spec: \<open>FastTruncateInt32\<close> (declared in a header that is not among the
  sources) converts a float to a 32-bit integer by truncation; on the nonnegative
  values it receives during advection this is the floor the specification speaks of.
\<close>

definition FastTruncateInt32 :: "real \<Rightarrow> int" where
  "FastTruncateInt32 x = (if 0 \<le> x then \<lfloor>x\<rfloor> else \<lceil>x\<rceil>)"

subsection \<open>The external wave state machine\<close>

datatype WavePhaseType = Rise | Fall

datatype ReleaseModeType = Automatic | OnCue

record SWEWaveStateMachine =
  mSampleIndex :: int
  mLowHeight :: real
  mCurrentPhaseStartHeight :: real
  mCurrentPhaseTargetHeight :: real
  mCurrentHeight :: real
  mCurrentProgress :: real
  mStartSimulationTime :: real
  mCurrentWavePhase :: WavePhaseType
  mReleaseMode :: ReleaseModeType
  mSmoothingDelay :: real

definition CalculateSmoothingDelay :: "OceanConstants \<Rightarrow> SWEWaveStateMachine \<Rightarrow> real" where
  "CalculateSmoothingDelay k m =
     (let deltaH = min \<bar>mCurrentPhaseTargetHeight m - mCurrentHeight m\<bar> (SWEHeightFieldOffset / 5);
          delayTicks =
            (if mCurrentWavePhase m = Rise
             then - (1988881 / 100000)
                  + (147403 / 1000) / (6126081 / 10000000)
                    * (1 - exp (- (6126081 / 10000000) * deltaH))
             else 1220013 / 1000000
                  + (78394 / 10000) / (6485749 / 10000000)
                    * (1 - exp (- (6485749 / 10000000) * deltaH)))
      in max delayTicks 1 * SimulationStepTimeDuration k)"

definition SWEWaveStateMachine_new ::
  "OceanConstants \<Rightarrow> int \<Rightarrow> real \<Rightarrow> real \<Rightarrow> ReleaseModeType \<Rightarrow> real \<Rightarrow> SWEWaveStateMachine"
where
  "SWEWaveStateMachine_new k sampleIndex startHeight targetHeight releaseMode
       currentSimulationTime =
     (let m = \<lparr>mSampleIndex = sampleIndex, mLowHeight = startHeight,
                mCurrentPhaseStartHeight = startHeight,
                mCurrentPhaseTargetHeight = targetHeight,
                mCurrentHeight = startHeight, mCurrentProgress = 0,
                mStartSimulationTime = currentSimulationTime,
                mCurrentWavePhase = Rise, mReleaseMode = releaseMode,
                mSmoothingDelay = 0\<rparr>
      in m\<lparr>mSmoothingDelay := CalculateSmoothingDelay k m\<rparr>)"

definition Restart ::
  "OceanConstants \<Rightarrow> real \<Rightarrow> real \<Rightarrow> SWEWaveStateMachine \<Rightarrow> SWEWaveStateMachine"
where
  "Restart k restartHeight currentSimulationTime m =
     (let m1 = m\<lparr>mCurrentPhaseStartHeight := mCurrentHeight m,
                  mCurrentPhaseTargetHeight := restartHeight,
                  mCurrentProgress := 0,
                  mStartSimulationTime := currentSimulationTime,
                  mCurrentWavePhase := Rise\<rparr>
      in m1\<lparr>mSmoothingDelay := CalculateSmoothingDelay k m1\<rparr>)"

definition StartFallPhase ::
  "OceanConstants \<Rightarrow> real \<Rightarrow> SWEWaveStateMachine \<Rightarrow> SWEWaveStateMachine"
where
  "StartFallPhase k currentSimulationTime m =
     (let m1 = m\<lparr>mCurrentPhaseStartHeight := mCurrentHeight m,
                  mCurrentPhaseTargetHeight := mLowHeight m,
                  mCurrentProgress := 0,
                  mStartSimulationTime := currentSimulationTime,
                  mCurrentWavePhase := Fall\<rparr>
      in m1\<lparr>mSmoothingDelay := CalculateSmoothingDelay k m1\<rparr>)"

definition Release ::
  "OceanConstants \<Rightarrow> real \<Rightarrow> SWEWaveStateMachine \<Rightarrow> SWEWaveStateMachine"
where
  "Release k currentSimulationTime m =
     (if mCurrentWavePhase m = Rise then StartFallPhase k currentSimulationTime m
      else m\<lparr>mCurrentProgress := 1\<rparr>)"

text \<open>
  \<open>Update\<close> of the state machine returns the optional height value together with the
  machine as the call leaves it.
\<close>

definition SWEWaveStateMachine_Update ::
  "OceanConstants \<Rightarrow> real \<Rightarrow> SWEWaveStateMachine \<Rightarrow> real option \<times> SWEWaveStateMachine"
where
  "SWEWaveStateMachine_Update k currentSimulationTime m =
     (let m1 = (if mCurrentProgress m < 1
                then m\<lparr>mCurrentProgress :=
                         (currentSimulationTime - mStartSimulationTime m) / mSmoothingDelay m\<rparr>
                else m);
          sinProgress = sin (pi / 2 * min (mCurrentProgress m1) 1);
          m2 = m1\<lparr>mCurrentHeight :=
                     mCurrentPhaseStartHeight m1
                     + (mCurrentPhaseTargetHeight m1 - mCurrentPhaseStartHeight m1) * sinProgress\<rparr>
      in if mCurrentProgress m2 \<ge> 1
         then (if mCurrentWavePhase m2 = Rise
               then (if mReleaseMode m2 = Automatic
                     then let m3 = StartFallPhase k currentSimulationTime m2
                          in (Some (mCurrentHeight m3), m3)
                     else (Some (mCurrentHeight m2), m2))
               else (None, m2))
         else (Some (mCurrentHeight m2), m2))"

subsection \<open>The shallow-water fields\<close>

record Sample =
  SampleValue :: real
  SampleValuePlusOneMinusSampleValue :: real

text \<open>
  The two height buffers and the two velocity buffers are reached through a current and
  a next pointer each; the fields below are the buffers the pointers designate, and the
  swap of the pointers is the exchange of the fields.
\<close>

record OceanSurface =
  mSamples :: "Sample list"
  mCurrentHeightField :: "real list"
  mNextHeightField :: "real list"
  mCurrentVelocityField :: "real list"
  mNextVelocityField :: "real list"
  mSWEExternalWaveStateMachine :: "SWEWaveStateMachine option"

datatype SWEError = OutOfBounds | EmptyOptional

text \<open>
  Reads and writes whose index depends on the data (the back-traced cell of the
  advection, the sample index of the wave state machine) are checked against the buffer;
  an index outside the buffer is the error \<open>OutOfBounds\<close>.
\<close>

definition read_cell :: "real list \<Rightarrow> int \<Rightarrow> SWEError + real" where
  "read_cell xs i = (if 0 \<le> i \<and> nat i < length xs then Inr (xs ! nat i) else Inl OutOfBounds)"

definition write_cell :: "real list \<Rightarrow> int \<Rightarrow> real \<Rightarrow> SWEError + real list" where
  "write_cell xs i v =
     (if 0 \<le> i \<and> nat i < length xs then Inr (xs[nat i := v]) else Inl OutOfBounds)"

definition OceanSurface_new :: "OceanConstants \<Rightarrow> Sample list \<Rightarrow> OceanSurface" where
  "OceanSurface_new k samples =
     \<lparr>mSamples = samples,
      mCurrentHeightField = replicate (SWETotalSamples k + 1) SWEHeightFieldOffset,
      mNextHeightField = replicate (SWETotalSamples k + 1) SWEHeightFieldOffset,
      mCurrentVelocityField = replicate (SWETotalSamples k + 1) 0,
      mNextVelocityField = replicate (SWETotalSamples k + 1) 0,
      mSWEExternalWaveStateMachine = None\<rparr>"

text \<open>The clamped back-traced index of a cell, its integral part and its fraction.\<close>

definition height_prevCellIndex2 :: "OceanConstants \<Rightarrow> real list \<Rightarrow> nat \<Rightarrow> real" where
  "height_prevCellIndex2 k velocityField i =
     (let v = (velocityField ! i + velocityField ! (i + 1)) / 2;
          prevCellIndex = real i - v * SimulationStepTimeDuration k / Dx k
      in min (max 0 prevCellIndex) (real (SWETotalSamples k - 1)))"

definition velocity_prevCellIndex2 :: "OceanConstants \<Rightarrow> real list \<Rightarrow> nat \<Rightarrow> real" where
  "velocity_prevCellIndex2 k velocityField i =
     (let v = velocityField ! i;
          prevCellIndex = real i - v * SimulationStepTimeDuration k / Dx k
      in min (max 0 prevCellIndex) (real (SWETotalSamples k - 1)))"

definition interpolate_at :: "real list \<Rightarrow> real \<Rightarrow> SWEError + real" where
  "interpolate_at field prevCellIndex2 =
     (let prevCellIndexI = FastTruncateInt32 prevCellIndex2;
          prevCellIndexF = prevCellIndex2 - real_of_int prevCellIndexI
      in case read_cell field prevCellIndexI of
           Inl e \<Rightarrow> Inl e
         | Inr a \<Rightarrow>
             (case read_cell field (prevCellIndexI + 1) of
                Inl e \<Rightarrow> Inl e
              | Inr b \<Rightarrow> Inr ((1 - prevCellIndexF) * a + prevCellIndexF * b)))"

fun advect_loop ::
  "(nat \<Rightarrow> real) \<Rightarrow> real list \<Rightarrow> nat list \<Rightarrow> real list \<Rightarrow> SWEError + real list"
where
  "advect_loop idx field [] nextField = Inr nextField"
| "advect_loop idx field (i # is) nextField =
     (case interpolate_at field (idx i) of
        Inl e \<Rightarrow> Inl e
      | Inr v \<Rightarrow> advect_loop idx field is (nextField[i := v]))"

definition inner_cells :: "OceanConstants \<Rightarrow> nat list" where
  "inner_cells k = [SWEBoundaryConditionsSamples ..< SWETotalSamples k - SWEBoundaryConditionsSamples]"

definition AdvectHeightField :: "OceanConstants \<Rightarrow> OceanSurface \<Rightarrow> SWEError + OceanSurface" where
  "AdvectHeightField k s =
     (case advect_loop (height_prevCellIndex2 k (mCurrentVelocityField s)) (mCurrentHeightField s)
             (inner_cells k) (mNextHeightField s) of
        Inl e \<Rightarrow> Inl e
      | Inr h \<Rightarrow> Inr (s\<lparr>mNextHeightField := h\<rparr>))"

definition AdvectVelocityField :: "OceanConstants \<Rightarrow> OceanSurface \<Rightarrow> SWEError + OceanSurface" where
  "AdvectVelocityField k s =
     (case advect_loop (velocity_prevCellIndex2 k (mCurrentVelocityField s))
             (mCurrentVelocityField s) (inner_cells k) (mNextVelocityField s) of
        Inl e \<Rightarrow> Inl e
      | Inr v \<Rightarrow> Inr (s\<lparr>mNextVelocityField := v\<rparr>))"

definition UpdateHeightField_step :: "OceanConstants \<Rightarrow> nat \<Rightarrow> OceanSurface \<Rightarrow> OceanSurface" where
  "UpdateHeightField_step k i s =
     s\<lparr>mNextHeightField := (mNextHeightField s)
         [i := mNextHeightField s ! i
               - mNextHeightField s ! i
                 * (mNextVelocityField s ! (i + 1) - mNextVelocityField s ! i) / Dx k
                 * SimulationStepTimeDuration k]\<rparr>"

definition UpdateHeightField :: "OceanConstants \<Rightarrow> OceanSurface \<Rightarrow> OceanSurface" where
  "UpdateHeightField k s = fold (UpdateHeightField_step k) (inner_cells k) s"

definition UpdateVelocityField_step :: "OceanConstants \<Rightarrow> nat \<Rightarrow> OceanSurface \<Rightarrow> OceanSurface" where
  "UpdateVelocityField_step k i s =
     s\<lparr>mNextVelocityField := (mNextVelocityField s)
         [i := mNextVelocityField s ! i
               + GravityMagnitude k
                 * (mNextHeightField s ! (i - 1) - mNextHeightField s ! i) / Dx k
                 * SimulationStepTimeDuration k]\<rparr>"

definition UpdateVelocityField :: "OceanConstants \<Rightarrow> OceanSurface \<Rightarrow> OceanSurface" where
  "UpdateVelocityField k s = fold (UpdateVelocityField_step k) (inner_cells k) s"

definition reflective_boundary_step :: "OceanConstants \<Rightarrow> nat \<Rightarrow> OceanSurface \<Rightarrow> OceanSurface" where
  "reflective_boundary_step k i s =
     (let h1 = (mNextHeightField s)
                 [i := mNextHeightField s ! (i + SWEBoundaryConditionsSamples)];
          h2 = h1[SWETotalSamples k - 1 - i
                    := h1 ! (SWETotalSamples k - 1 - SWEBoundaryConditionsSamples - i)]
      in s\<lparr>mNextHeightField := h2\<rparr>)"

definition swap_buffers :: "OceanSurface \<Rightarrow> OceanSurface" where
  "swap_buffers s =
     s\<lparr>mCurrentHeightField := mNextHeightField s, mNextHeightField := mCurrentHeightField s,
       mCurrentVelocityField := mNextVelocityField s, mNextVelocityField := mCurrentVelocityField s\<rparr>"

text \<open>
  The render samples. The wind ripple term of sample \<open>i\<close> (the ripple value times the
  ripple wave height, both computed from the wind, whose class is not among the sources)
  is the parameter \<open>ripple\<close>.
\<close>

definition sample_value :: "(nat \<Rightarrow> real) \<Rightarrow> OceanSurface \<Rightarrow> nat \<Rightarrow> real" where
  "sample_value ripple s i =
     (mCurrentHeightField s ! (SWEOuterLayerSamples + i) - SWEHeightFieldOffset)
       * SWEHeightFieldAmplification
     + ripple i"

definition generate_sample_step ::
  "(nat \<Rightarrow> real) \<Rightarrow> OceanSurface \<Rightarrow> nat \<Rightarrow> Sample list \<times> real \<Rightarrow> Sample list \<times> real"
where
  "generate_sample_step ripple s i acc =
     (let samples = fst acc; previousSampleValue = snd acc;
          sampleValue = sample_value ripple s i;
          samples1 = samples[i := (samples ! i)\<lparr>SampleValue := sampleValue\<rparr>];
          samples2 = samples1[i - 1 := (samples1 ! (i - 1))
                       \<lparr>SampleValuePlusOneMinusSampleValue := sampleValue - previousSampleValue\<rparr>]
      in (samples2, sampleValue))"

definition generate_samples :: "OceanConstants \<Rightarrow> (nat \<Rightarrow> real) \<Rightarrow> OceanSurface \<Rightarrow> OceanSurface" where
  "generate_samples k ripple s =
     (let n = SamplesCount k;
          v0 = sample_value ripple s 0;
          samples0 = (mSamples s)[0 := (mSamples s ! 0)\<lparr>SampleValue := v0\<rparr>];
          samples1 = fst (fold (generate_sample_step ripple s) [1 ..< n] (samples0, v0));
          samples2 = samples1[n - 1 := (samples1 ! (n - 1))
                       \<lparr>SampleValuePlusOneMinusSampleValue := 0\<rparr>];
          samples3 = samples2[n := \<lparr>SampleValue = SampleValue (samples2 ! (n - 1)),
                                    SampleValuePlusOneMinusSampleValue = 0\<rparr>]
      in s\<lparr>mSamples := samples3\<rparr>)"

definition advance_external_wave ::
  "OceanConstants \<Rightarrow> real \<Rightarrow> OceanSurface \<Rightarrow> SWEError + OceanSurface"
where
  "advance_external_wave k currentSimulationTime s =
     (case mSWEExternalWaveStateMachine s of
        None \<Rightarrow> Inr s
      | Some m \<Rightarrow>
          (case SWEWaveStateMachine_Update k currentSimulationTime m of
             (None, m') \<Rightarrow> Inr (s\<lparr>mSWEExternalWaveStateMachine := None\<rparr>)
           | (Some heightValue, m') \<Rightarrow>
               (case write_cell (mCurrentHeightField s) (mSampleIndex m') heightValue of
                  Inl e \<Rightarrow> Inl e
                | Inr h \<Rightarrow> Inr (s\<lparr>mCurrentHeightField := h,
                                   mSWEExternalWaveStateMachine := Some m'\<rparr>))))"

definition OceanSurface_Update ::
  "OceanConstants \<Rightarrow> real \<Rightarrow> (nat \<Rightarrow> real) \<Rightarrow> OceanSurface \<Rightarrow> SWEError + OceanSurface"
where
  "OceanSurface_Update k currentSimulationTime ripple s =
     (case advance_external_wave k currentSimulationTime s of
        Inl e \<Rightarrow> Inl e
      | Inr s1 \<Rightarrow>
          (case AdvectHeightField k s1 of
             Inl e \<Rightarrow> Inl e
           | Inr s2 \<Rightarrow>
               (case AdvectVelocityField k s2 of
                  Inl e \<Rightarrow> Inl e
                | Inr s3 \<Rightarrow>
                    (let s4 = UpdateHeightField k s3;
                         s5 = UpdateVelocityField k s4;
                         s6 = fold (reflective_boundary_step k)
                                [0 ..< SWEBoundaryConditionsSamples] s5;
                         s7 = swap_buffers s6
                     in Inr (generate_samples k ripple s7)))))"

definition AdjustTo ::
  "OceanConstants \<Rightarrow> vec2f option \<Rightarrow> real \<Rightarrow> OceanSurface \<Rightarrow> SWEError + OceanSurface"
where
  "AdjustTo k worldCoordinates currentSimulationTime s =
     (case worldCoordinates of
        Some (x, y) \<Rightarrow>
          (let targetHeight = y / SWEHeightFieldAmplification + SWEHeightFieldOffset
           in case mSWEExternalWaveStateMachine s of
                None \<Rightarrow>
                  (let sampleIndexF = (x + HalfMaxWorldWidth k) / Dx k;
                       sampleIndexI = FastTruncateInt32 (sampleIndexF + 1 / 2)
                   in case read_cell (mCurrentHeightField s)
                             (int SWEOuterLayerSamples + sampleIndexI) of
                        Inl e \<Rightarrow> Inl e
                      | Inr lowHeight \<Rightarrow>
                          Inr (s\<lparr>mSWEExternalWaveStateMachine :=
                                   Some (SWEWaveStateMachine_new k sampleIndexI lowHeight
                                           targetHeight OnCue currentSimulationTime)\<rparr>))
              | Some m \<Rightarrow>
                  Inr (s\<lparr>mSWEExternalWaveStateMachine :=
                           Some (Restart k targetHeight currentSimulationTime m)\<rparr>))
      | None \<Rightarrow>
          (case mSWEExternalWaveStateMachine s of
             None \<Rightarrow> Inl EmptyOptional
           | Some m \<Rightarrow>
               Inr (s\<lparr>mSWEExternalWaveStateMachine :=
                        Some (Release k currentSimulationTime m)\<rparr>)))"

subsection \<open>Advection stays inside the buffers\<close>

lemma SWETotalSamples_ge: "4 \<le> SWETotalSamples k"
  by (simp add: SWETotalSamples_def SWEOuterLayerSamples_def SWEWaveGenerationSamples_def
      SWEBoundaryConditionsSamples_def)

definition clamped_index :: "OceanConstants \<Rightarrow> real \<Rightarrow> bool" where
  "clamped_index k x \<longleftrightarrow> 0 \<le> x \<and> x \<le> real (SWETotalSamples k - 1)"

lemma height_prevCellIndex2_clamped: "clamped_index k (height_prevCellIndex2 k v i)"
  by (simp add: clamped_index_def height_prevCellIndex2_def Let_def)

lemma velocity_prevCellIndex2_clamped: "clamped_index k (velocity_prevCellIndex2 k v i)"
  by (simp add: clamped_index_def velocity_prevCellIndex2_def Let_def)

lemma clamped_index_truncate:
  assumes "clamped_index k x"
  shows "0 \<le> FastTruncateInt32 x"
    and "FastTruncateInt32 x \<le> int (SWETotalSamples k - 1)"
    and "0 \<le> x - real_of_int (FastTruncateInt32 x)"
    and "x - real_of_int (FastTruncateInt32 x) < 1"
proof -
  have x: "0 \<le> x" "x \<le> real (SWETotalSamples k - 1)"
    using assms by (simp_all add: clamped_index_def)
  have t: "FastTruncateInt32 x = \<lfloor>x\<rfloor>"
    using x by (simp add: FastTruncateInt32_def)
  show "0 \<le> FastTruncateInt32 x"
    using x t by simp
  have "\<lfloor>x\<rfloor> \<le> \<lfloor>real (SWETotalSamples k - 1)\<rfloor>"
    using x(2) by (rule floor_mono)
  then show "FastTruncateInt32 x \<le> int (SWETotalSamples k - 1)"
    using t by simp
  show "0 \<le> x - real_of_int (FastTruncateInt32 x)"
    using t by simp
  show "x - real_of_int (FastTruncateInt32 x) < 1"
    using t by linarith
qed

lemma interpolate_at_in_bounds:
  assumes "clamped_index k x" "length field = SWETotalSamples k + 1"
  shows "\<exists>v. interpolate_at field x = Inr v"
proof -
  have a: "0 \<le> FastTruncateInt32 x" "FastTruncateInt32 x \<le> int (SWETotalSamples k - 1)"
    using clamped_index_truncate[OF assms(1)] by auto
  have "nat (FastTruncateInt32 x) < length field"
    "nat (FastTruncateInt32 x + 1) < length field"
    using a assms(2) SWETotalSamples_ge[of k] by auto
  then show ?thesis
    using a by (simp add: interpolate_at_def read_cell_def Let_def)
qed

lemma advect_loop_in_bounds:
  assumes "\<And>i. clamped_index k (idx i)" "length field = SWETotalSamples k + 1"
  shows "\<exists>r. advect_loop idx field cells nextField = Inr r
           \<and> length r = length nextField
           \<and> (\<forall>j. j \<notin> set cells \<longrightarrow> r ! j = nextField ! j)"
proof (induction cells arbitrary: nextField)
  case Nil
  show ?case by simp
next
  case (Cons i cells)
  obtain v where v: "interpolate_at field (idx i) = Inr v"
    using interpolate_at_in_bounds[OF assms(1) assms(2)] by blast
  obtain r where r: "advect_loop idx field cells (nextField[i := v]) = Inr r"
    "length r = length (nextField[i := v])"
    "\<forall>j. j \<notin> set cells \<longrightarrow> r ! j = nextField[i := v] ! j"
    using Cons.IH by blast
  then show ?case
    using v by auto
qed

text \<open>
  Claim C9. Whatever the velocities, the clamped back-traced index of the height and of
  the velocity advection has an integral part between 0 and the total number of samples
  minus one, so that this cell and the next one lie inside a buffer of the total number
  of samples plus one cells, and a fraction in [0, 1); consequently both advection passes
  complete without reading outside buffers of that size.
\<close>

theorem advection_reads_in_bounds:
  "0 \<le> FastTruncateInt32 (height_prevCellIndex2 k velocityField i)
   \<and> FastTruncateInt32 (height_prevCellIndex2 k velocityField i) \<le> int (SWETotalSamples k) - 1
   \<and> 0 \<le> height_prevCellIndex2 k velocityField i
          - real_of_int (FastTruncateInt32 (height_prevCellIndex2 k velocityField i))
   \<and> height_prevCellIndex2 k velocityField i
          - real_of_int (FastTruncateInt32 (height_prevCellIndex2 k velocityField i)) < 1
   \<and> 0 \<le> FastTruncateInt32 (velocity_prevCellIndex2 k velocityField i)
   \<and> FastTruncateInt32 (velocity_prevCellIndex2 k velocityField i) \<le> int (SWETotalSamples k) - 1
   \<and> 0 \<le> velocity_prevCellIndex2 k velocityField i
          - real_of_int (FastTruncateInt32 (velocity_prevCellIndex2 k velocityField i))
   \<and> velocity_prevCellIndex2 k velocityField i
          - real_of_int (FastTruncateInt32 (velocity_prevCellIndex2 k velocityField i)) < 1
   \<and> (length (mCurrentHeightField s) = SWETotalSamples k + 1
        \<longrightarrow> (\<exists>s'. AdvectHeightField k s = Inr s'))
   \<and> (length (mCurrentVelocityField s) = SWETotalSamples k + 1
        \<longrightarrow> (\<exists>s'. AdvectVelocityField k s = Inr s'))"
proof -
  have n: "int (SWETotalSamples k - 1) = int (SWETotalSamples k) - 1"
    using SWETotalSamples_ge[of k] by simp
  note h = clamped_index_truncate[OF height_prevCellIndex2_clamped[of k velocityField i]]
  note v = clamped_index_truncate[OF velocity_prevCellIndex2_clamped[of k velocityField i]]
  have ah: "\<exists>s'. AdvectHeightField k s = Inr s'"
    if "length (mCurrentHeightField s) = SWETotalSamples k + 1"
  proof -
    have "\<exists>r. advect_loop (height_prevCellIndex2 k (mCurrentVelocityField s))
        (mCurrentHeightField s) (inner_cells k) (mNextHeightField s) = Inr r
        \<and> length r = length (mNextHeightField s)
        \<and> (\<forall>j. j \<notin> set (inner_cells k) \<longrightarrow> r ! j = mNextHeightField s ! j)"
      by (rule advect_loop_in_bounds[where k = k])
         (simp_all add: height_prevCellIndex2_clamped that)
    then obtain r where "advect_loop (height_prevCellIndex2 k (mCurrentVelocityField s))
        (mCurrentHeightField s) (inner_cells k) (mNextHeightField s) = Inr r"
      by blast
    then show ?thesis by (simp add: AdvectHeightField_def)
  qed
  have av: "\<exists>s'. AdvectVelocityField k s = Inr s'"
    if "length (mCurrentVelocityField s) = SWETotalSamples k + 1"
  proof -
    have "\<exists>r. advect_loop (velocity_prevCellIndex2 k (mCurrentVelocityField s))
        (mCurrentVelocityField s) (inner_cells k) (mNextVelocityField s) = Inr r
        \<and> length r = length (mNextVelocityField s)
        \<and> (\<forall>j. j \<notin> set (inner_cells k) \<longrightarrow> r ! j = mNextVelocityField s ! j)"
      by (rule advect_loop_in_bounds[where k = k])
         (simp_all add: velocity_prevCellIndex2_clamped that)
    then obtain r where "advect_loop (velocity_prevCellIndex2 k (mCurrentVelocityField s))
        (mCurrentVelocityField s) (inner_cells k) (mNextVelocityField s) = Inr r"
      by blast
    then show ?thesis by (simp add: AdvectVelocityField_def)
  qed
  show ?thesis
    using h v ah av unfolding n by blast
qed

definition ex_ocean_constants :: OceanConstants where
  "ex_ocean_constants =
     \<lparr>SamplesCount = 2, Dx = 1, HalfMaxWorldWidth = 1, SimulationStepTimeDuration = 1 / 50,
      GravityMagnitude = 981 / 100\<rparr>"

definition ex_samples :: "Sample list" where
  "ex_samples = replicate 3 \<lparr>SampleValue = 0, SampleValuePlusOneMinusSampleValue = 0\<rparr>"

definition ex_ocean :: OceanSurface where
  "ex_ocean =
     (OceanSurface_new ex_ocean_constants ex_samples)
       \<lparr>mCurrentHeightField := [100, 100, 101, 100, 100, 100, 100],
        mCurrentVelocityField := [0, 0, 60, - 70, 0, 0, 0]\<rparr>"

lemma ex_total_samples: "SWETotalSamples ex_ocean_constants = 6"
  by (simp add: SWETotalSamples_def SWEOuterLayerSamples_def SWEWaveGenerationSamples_def
      SWEBoundaryConditionsSamples_def ex_ocean_constants_def)

theorem advection_reads_in_bounds_witness:
  "length (mCurrentHeightField ex_ocean) = SWETotalSamples ex_ocean_constants + 1
   \<and> (\<exists>s'. AdvectHeightField ex_ocean_constants ex_ocean = Inr s')
   \<and> FastTruncateInt32 (height_prevCellIndex2 ex_ocean_constants [0, 0, 60, - 70, 0, 0, 0] 2) = 2
   \<and> FastTruncateInt32 (velocity_prevCellIndex2 ex_ocean_constants [0, 0, 60, - 70, 0, 0, 0] 2) = 0"
proof -
  have l: "length (mCurrentHeightField ex_ocean) = SWETotalSamples ex_ocean_constants + 1"
    by (simp add: ex_total_samples ex_ocean_def)
  have a: "\<exists>s'. AdvectHeightField ex_ocean_constants ex_ocean = Inr s'"
    using advection_reads_in_bounds[of ex_ocean_constants "[]" 0 ex_ocean] l by blast
  have h: "height_prevCellIndex2 ex_ocean_constants [0, 0, 60, - 70, 0, 0, 0] 2 = 21 / 10"
    unfolding height_prevCellIndex2_def ex_total_samples Let_def
    by (simp add: ex_ocean_constants_def)
  have v: "velocity_prevCellIndex2 ex_ocean_constants [0, 0, 60, - 70, 0, 0, 0] 2 = 8 / 10"
    unfolding velocity_prevCellIndex2_def ex_total_samples Let_def
    by (simp add: ex_ocean_constants_def)
  have th: "FastTruncateInt32 (height_prevCellIndex2 ex_ocean_constants [0, 0, 60, - 70, 0, 0, 0] 2)
      = 2"
    unfolding h by (simp add: FastTruncateInt32_def)
  have tv: "FastTruncateInt32 (velocity_prevCellIndex2 ex_ocean_constants [0, 0, 60, - 70, 0, 0, 0] 2)
      = 0"
    unfolding v by (simp add: FastTruncateInt32_def)
  from l a th tv show ?thesis by blast
qed

subsection \<open>The boundary cells after an update\<close>

definition ocean_inv :: "OceanConstants \<Rightarrow> OceanSurface \<Rightarrow> bool" where
  "ocean_inv k s \<longleftrightarrow>
     length (mCurrentHeightField s) = SWETotalSamples k + 1
     \<and> length (mNextHeightField s) = SWETotalSamples k + 1
     \<and> length (mCurrentVelocityField s) = SWETotalSamples k + 1
     \<and> length (mNextVelocityField s) = SWETotalSamples k + 1
     \<and> mCurrentVelocityField s ! 0 = 0
     \<and> mCurrentVelocityField s ! (SWETotalSamples k - 1) = 0
     \<and> mNextVelocityField s ! 0 = 0
     \<and> mNextVelocityField s ! (SWETotalSamples k - 1) = 0"

lemma inner_cells_set: "set (inner_cells k) = {1 ..< SWETotalSamples k - 1}"
  by (auto simp: inner_cells_def SWEBoundaryConditionsSamples_def)

lemma UpdateHeightField_fold:
  "mNextVelocityField (fold (UpdateHeightField_step k) cells s) = mNextVelocityField s
   \<and> mCurrentVelocityField (fold (UpdateHeightField_step k) cells s) = mCurrentVelocityField s
   \<and> mCurrentHeightField (fold (UpdateHeightField_step k) cells s) = mCurrentHeightField s
   \<and> mSWEExternalWaveStateMachine (fold (UpdateHeightField_step k) cells s)
       = mSWEExternalWaveStateMachine s
   \<and> length (mNextHeightField (fold (UpdateHeightField_step k) cells s))
       = length (mNextHeightField s)"
  by (induction cells arbitrary: s) (simp_all add: UpdateHeightField_step_def)

lemma UpdateVelocityField_fold:
  "mNextHeightField (fold (UpdateVelocityField_step k) cells s) = mNextHeightField s
   \<and> mCurrentVelocityField (fold (UpdateVelocityField_step k) cells s) = mCurrentVelocityField s
   \<and> mCurrentHeightField (fold (UpdateVelocityField_step k) cells s) = mCurrentHeightField s
   \<and> mSWEExternalWaveStateMachine (fold (UpdateVelocityField_step k) cells s)
       = mSWEExternalWaveStateMachine s
   \<and> length (mNextVelocityField (fold (UpdateVelocityField_step k) cells s))
       = length (mNextVelocityField s)
   \<and> (\<forall>j. j \<notin> set cells \<longrightarrow>
         mNextVelocityField (fold (UpdateVelocityField_step k) cells s) ! j
           = mNextVelocityField s ! j)"
  by (induction cells arbitrary: s) (simp_all add: UpdateVelocityField_step_def)

lemma advance_external_wave_fields:
  assumes "advance_external_wave k t s = Inr s1"
  shows "mNextHeightField s1 = mNextHeightField s"
    and "mCurrentVelocityField s1 = mCurrentVelocityField s"
    and "mNextVelocityField s1 = mNextVelocityField s"
    and "length (mCurrentHeightField s1) = length (mCurrentHeightField s)"
  using assms
  by (auto simp: advance_external_wave_def write_cell_def
      split: option.splits prod.splits sum.splits if_splits)

lemma generate_samples_fields:
  "mCurrentHeightField (generate_samples k ripple s) = mCurrentHeightField s"
  "mNextHeightField (generate_samples k ripple s) = mNextHeightField s"
  "mCurrentVelocityField (generate_samples k ripple s) = mCurrentVelocityField s"
  "mNextVelocityField (generate_samples k ripple s) = mNextVelocityField s"
  by (simp_all add: generate_samples_def Let_def)

text \<open>What a completed update leaves in the four buffers.\<close>

lemma OceanSurface_Update_buffers:
  assumes inv: "ocean_inv k s" and upd: "OceanSurface_Update k t ripple s = Inr s'"
  shows "ocean_inv k s'"
    and "mCurrentHeightField s' ! 0 = mCurrentHeightField s' ! 1"
    and "mCurrentHeightField s' ! (SWETotalSamples k - 1)
           = mCurrentHeightField s' ! (SWETotalSamples k - 2)"
proof -
  let ?n = "SWETotalSamples k"
  have n4: "4 \<le> ?n" by (rule SWETotalSamples_ge)
  obtain s1 where s1: "advance_external_wave k t s = Inr s1"
    using upd by (auto simp: OceanSurface_Update_def split: sum.splits)
  obtain s2 where s2: "AdvectHeightField k s1 = Inr s2"
    using upd s1 by (auto simp: OceanSurface_Update_def split: sum.splits)
  obtain s3 where s3: "AdvectVelocityField k s2 = Inr s3"
    using upd s1 s2 by (auto simp: OceanSurface_Update_def split: sum.splits)
  define s4 where "s4 = UpdateHeightField k s3"
  define s5 where "s5 = UpdateVelocityField k s4"
  define s6 where "s6 = fold (reflective_boundary_step k) [0 ..< SWEBoundaryConditionsSamples] s5"
  have s': "s' = generate_samples k ripple (swap_buffers s6)"
    using upd s1 s2 s3 by (simp add: OceanSurface_Update_def Let_def s4_def s5_def s6_def)
  note f1 = advance_external_wave_fields[OF s1]
  have l1: "length (mCurrentHeightField s1) = ?n + 1" "length (mNextHeightField s1) = ?n + 1"
    "length (mCurrentVelocityField s1) = ?n + 1" "length (mNextVelocityField s1) = ?n + 1"
    using inv f1 by (simp_all add: ocean_inv_def)
  have e1: "mCurrentVelocityField s1 = mCurrentVelocityField s"
    "mNextVelocityField s1 = mNextVelocityField s"
    using f1 by simp_all
  \<comment> \<open>height advection\<close>
  have "\<exists>r. advect_loop (height_prevCellIndex2 k (mCurrentVelocityField s1))
        (mCurrentHeightField s1) (inner_cells k) (mNextHeightField s1) = Inr r
        \<and> length r = length (mNextHeightField s1)
        \<and> (\<forall>j. j \<notin> set (inner_cells k) \<longrightarrow> r ! j = mNextHeightField s1 ! j)"
    by (rule advect_loop_in_bounds[where k = k])
       (simp_all add: height_prevCellIndex2_clamped l1)
  then obtain h where h: "s2 = s1\<lparr>mNextHeightField := h\<rparr>" "length h = ?n + 1"
    using s2 l1 by (auto simp: AdvectHeightField_def)
  \<comment> \<open>velocity advection\<close>
  have "\<exists>r. advect_loop (velocity_prevCellIndex2 k (mCurrentVelocityField s2))
        (mCurrentVelocityField s2) (inner_cells k) (mNextVelocityField s2) = Inr r
        \<and> length r = length (mNextVelocityField s2)
        \<and> (\<forall>j. j \<notin> set (inner_cells k) \<longrightarrow> r ! j = mNextVelocityField s2 ! j)"
    by (rule advect_loop_in_bounds[where k = k])
       (simp_all add: velocity_prevCellIndex2_clamped l1 h)
  then obtain v where v: "s3 = s2\<lparr>mNextVelocityField := v\<rparr>" "length v = ?n + 1"
    "\<forall>j. j \<notin> set (inner_cells k) \<longrightarrow> v ! j = mNextVelocityField s ! j"
    using s3 l1 h e1 by (auto simp: AdvectVelocityField_def)
  \<comment> \<open>the two field updates\<close>
  note u4 = UpdateHeightField_fold[of k "inner_cells k" s3]
  note u5 = UpdateVelocityField_fold[of k "inner_cells k" s4]
  have b: "0 \<notin> set (inner_cells k)" "?n - 1 \<notin> set (inner_cells k)"
    by (simp_all add: inner_cells_set)
  have s5v: "length (mNextVelocityField s5) = ?n + 1"
    "mNextVelocityField s5 ! 0 = 0" "mNextVelocityField s5 ! (?n - 1) = 0"
    "mCurrentVelocityField s5 = mCurrentVelocityField s"
    using u4 u5 v h l1 e1 b inv
    by (simp_all add: s4_def s5_def UpdateHeightField_def UpdateVelocityField_def ocean_inv_def)
  have s5h: "length (mNextHeightField s5) = ?n + 1"
    "length (mCurrentHeightField s5) = ?n + 1"
    using u4 u5 v h l1
    by (simp_all add: s4_def s5_def UpdateHeightField_def UpdateVelocityField_def)
  \<comment> \<open>the reflective boundary\<close>
  define H where "H = mNextHeightField s5"
  have s6: "s6 = s5\<lparr>mNextHeightField := (H[0 := H ! 1])[?n - 1 := (H[0 := H ! 1]) ! (?n - 2)]\<rparr>"
    by (simp add: s6_def SWEBoundaryConditionsSamples_def reflective_boundary_step_def Let_def
        H_def numeral_2_eq_2)
  have lH: "length H = ?n + 1" using s5h by (simp add: H_def)
  have m0: "((H[0 := H ! 1])[?n - 1 := (H[0 := H ! 1]) ! (?n - 2)]) ! 0
      = ((H[0 := H ! 1])[?n - 1 := (H[0 := H ! 1]) ! (?n - 2)]) ! 1"
    using n4 lH by (simp add: nth_list_update)
  have m1: "((H[0 := H ! 1])[?n - 1 := (H[0 := H ! 1]) ! (?n - 2)]) ! (?n - 1)
      = ((H[0 := H ! 1])[?n - 1 := (H[0 := H ! 1]) ! (?n - 2)]) ! (?n - 2)"
    using n4 lH by (simp add: nth_list_update)
  show "mCurrentHeightField s' ! 0 = mCurrentHeightField s' ! 1"
    using m0 by (simp add: s' generate_samples_fields swap_buffers_def s6)
  show "mCurrentHeightField s' ! (?n - 1) = mCurrentHeightField s' ! (?n - 2)"
    using m1 by (simp add: s' generate_samples_fields swap_buffers_def s6)
  show "ocean_inv k s'"
    using s5v s5h lH inv
    by (simp add: s' generate_samples_fields swap_buffers_def s6 ocean_inv_def)
qed

lemma OceanSurface_new_inv: "ocean_inv k (OceanSurface_new k samples)"
  using SWETotalSamples_ge[of k] by (simp add: ocean_inv_def OceanSurface_new_def)

lemma AdjustTo_inv:
  assumes "ocean_inv k s" "AdjustTo k worldCoordinates t s = Inr s'"
  shows "ocean_inv k s'"
  using assms
  by (auto simp: AdjustTo_def ocean_inv_def Let_def
      split: option.splits prod.splits sum.splits)

text \<open>
  The states of the ocean surface: the one the constructor builds, and those reached
  from it by completed updates and by adjustments.
\<close>

inductive ocean_reachable :: "OceanConstants \<Rightarrow> OceanSurface \<Rightarrow> bool" for k where
  constructed: "ocean_reachable k (OceanSurface_new k samples)"
| updated:
    "ocean_reachable k s \<Longrightarrow> OceanSurface_Update k t ripple s = Inr s'
     \<Longrightarrow> ocean_reachable k s'"
| adjusted:
    "ocean_reachable k s \<Longrightarrow> AdjustTo k worldCoordinates t s = Inr s'
     \<Longrightarrow> ocean_reachable k s'"

lemma ocean_reachable_inv: "ocean_reachable k s \<Longrightarrow> ocean_inv k s"
proof (induction rule: ocean_reachable.induct)
  case (constructed samples)
  show ?case by (rule OceanSurface_new_inv)
next
  case (updated s t ripple s')
  then show ?case using OceanSurface_Update_buffers(1) by blast
next
  case (adjusted s worldCoordinates t s')
  then show ?case using AdjustTo_inv by blast
qed

lemma OceanSurface_Update_completes:
  assumes inv: "ocean_inv k s"
    and idx: "case mSWEExternalWaveStateMachine s of
                None \<Rightarrow> True
              | Some m \<Rightarrow> 0 \<le> mSampleIndex m \<and> mSampleIndex m \<le> int (SWETotalSamples k)"
  shows "\<exists>s'. OceanSurface_Update k t ripple s = Inr s'"
proof -
  let ?n = "SWETotalSamples k"
  have keep: "mSampleIndex (snd (SWEWaveStateMachine_Update k t m)) = mSampleIndex m" for m
    by (simp add: SWEWaveStateMachine_Update_def Let_def StartFallPhase_def)
  have "\<exists>s1. advance_external_wave k t s = Inr s1"
  proof (cases "mSWEExternalWaveStateMachine s")
    case None
    then show ?thesis by (simp add: advance_external_wave_def)
  next
    case (Some m)
    obtain hv m' where u: "SWEWaveStateMachine_Update k t m = (hv, m')"
      by (cases "SWEWaveStateMachine_Update k t m") auto
    have "mSampleIndex m' = mSampleIndex m"
      using keep[of m] u by simp
    then have "0 \<le> mSampleIndex m'" "nat (mSampleIndex m') < length (mCurrentHeightField s)"
      using idx Some inv by (auto simp: ocean_inv_def)
    then show ?thesis
      using Some u by (cases hv) (simp_all add: advance_external_wave_def write_cell_def)
  qed
  then obtain s1 where s1: "advance_external_wave k t s = Inr s1" by blast
  note f1 = advance_external_wave_fields[OF s1]
  have l1: "length (mCurrentHeightField s1) = ?n + 1"
    "length (mCurrentVelocityField s1) = ?n + 1"
    using inv f1 by (simp_all add: ocean_inv_def)
  have "\<exists>r. advect_loop (height_prevCellIndex2 k (mCurrentVelocityField s1))
        (mCurrentHeightField s1) (inner_cells k) (mNextHeightField s1) = Inr r
        \<and> length r = length (mNextHeightField s1)
        \<and> (\<forall>j. j \<notin> set (inner_cells k) \<longrightarrow> r ! j = mNextHeightField s1 ! j)"
    by (rule advect_loop_in_bounds[where k = k])
       (simp_all add: height_prevCellIndex2_clamped l1)
  then obtain h where h: "AdvectHeightField k s1 = Inr (s1\<lparr>mNextHeightField := h\<rparr>)"
    by (auto simp: AdvectHeightField_def)
  let ?s2 = "s1\<lparr>mNextHeightField := h\<rparr>"
  have "\<exists>r. advect_loop (velocity_prevCellIndex2 k (mCurrentVelocityField ?s2))
        (mCurrentVelocityField ?s2) (inner_cells k) (mNextVelocityField ?s2) = Inr r
        \<and> length r = length (mNextVelocityField ?s2)
        \<and> (\<forall>j. j \<notin> set (inner_cells k) \<longrightarrow> r ! j = mNextVelocityField ?s2 ! j)"
    by (rule advect_loop_in_bounds[where k = k])
       (simp_all add: velocity_prevCellIndex2_clamped l1)
  then obtain v where v: "AdvectVelocityField k ?s2 = Inr (?s2\<lparr>mNextVelocityField := v\<rparr>)"
    by (auto simp: AdvectVelocityField_def)
  show ?thesis
    using s1 h v by (simp add: OceanSurface_Update_def Let_def)
qed

text \<open>
  Claim C5. For every reachable state of the ocean surface, an update that completes
  (with or without a write of the external wave into the current height field) leaves a
  current height field whose first cell equals the second and whose last cell
  (at the total number of samples minus one) equals the one before it, and a current
  velocity field that is 0 at the first and at the last cell. The update does complete
  whenever no external wave is running or its sample index lies in the buffer.
\<close>

theorem ocean_mirror_after_update:
  assumes "ocean_reachable k s"
  shows "(\<forall>s'. OceanSurface_Update k t ripple s = Inr s' \<longrightarrow>
            mCurrentHeightField s' ! 0 = mCurrentHeightField s' ! 1
            \<and> mCurrentHeightField s' ! (SWETotalSamples k - 1)
                = mCurrentHeightField s' ! (SWETotalSamples k - 2)
            \<and> mCurrentVelocityField s' ! 0 = 0
            \<and> mCurrentVelocityField s' ! (SWETotalSamples k - 1) = 0)
         \<and> ((case mSWEExternalWaveStateMachine s of
                None \<Rightarrow> True
              | Some m \<Rightarrow> 0 \<le> mSampleIndex m \<and> mSampleIndex m \<le> int (SWETotalSamples k))
             \<longrightarrow> (\<exists>s'. OceanSurface_Update k t ripple s = Inr s'))"
proof -
  have inv: "ocean_inv k s"
    using assms by (rule ocean_reachable_inv)
  have "mCurrentHeightField s' ! 0 = mCurrentHeightField s' ! 1
            \<and> mCurrentHeightField s' ! (SWETotalSamples k - 1)
                = mCurrentHeightField s' ! (SWETotalSamples k - 2)
            \<and> mCurrentVelocityField s' ! 0 = 0
            \<and> mCurrentVelocityField s' ! (SWETotalSamples k - 1) = 0"
    if "OceanSurface_Update k t ripple s = Inr s'" for s'
    using OceanSurface_Update_buffers[OF inv that]
    by (simp add: ocean_inv_def)
  then show ?thesis
    using OceanSurface_Update_completes[OF inv] by blast
qed

definition ex_wave :: SWEWaveStateMachine where
  "ex_wave = SWEWaveStateMachine_new ex_ocean_constants 1 100 (5 / 50 + 100) OnCue 0"

definition ex_adjusted_ocean :: OceanSurface where
  "ex_adjusted_ocean =
     (OceanSurface_new ex_ocean_constants ex_samples)\<lparr>mSWEExternalWaveStateMachine := Some ex_wave\<rparr>"

lemma ex_ocean_constants_fields:
  "SamplesCount ex_ocean_constants = 2" "Dx ex_ocean_constants = 1"
  "HalfMaxWorldWidth ex_ocean_constants = 1"
  "SimulationStepTimeDuration ex_ocean_constants = 1 / 50"
  by (simp_all add: ex_ocean_constants_def)

lemma ex_adjusted_ocean_reachable: "ocean_reachable ex_ocean_constants ex_adjusted_ocean"
proof -
  have "FastTruncateInt32 (3 / 2) = 1"
    by (simp add: FastTruncateInt32_def)
  then have "AdjustTo ex_ocean_constants (Some (0, 5)) 0
      (OceanSurface_new ex_ocean_constants ex_samples) = Inr ex_adjusted_ocean"
    by (simp add: AdjustTo_def OceanSurface_new_def ex_total_samples read_cell_def Let_def
        ex_adjusted_ocean_def ex_wave_def SWEHeightFieldAmplification_def
        SWEHeightFieldOffset_def SWEOuterLayerSamples_def SWEWaveGenerationSamples_def
        SWEBoundaryConditionsSamples_def ex_ocean_constants_fields)
  then show ?thesis
    using ocean_reachable.adjusted[OF ocean_reachable.constructed] by blast
qed

theorem ocean_mirror_after_update_witness:
  "ocean_reachable ex_ocean_constants ex_adjusted_ocean
   \<and> (\<exists>s'. OceanSurface_Update ex_ocean_constants (1 / 50) (\<lambda>i. 0) ex_adjusted_ocean = Inr s'
        \<and> mCurrentHeightField s' ! 0 = mCurrentHeightField s' ! 1
        \<and> mCurrentHeightField s' ! 5 = mCurrentHeightField s' ! 4
        \<and> mCurrentVelocityField s' ! 0 = 0
        \<and> mCurrentVelocityField s' ! 5 = 0)"
proof -
  have idx: "case mSWEExternalWaveStateMachine ex_adjusted_ocean of
                None \<Rightarrow> True
              | Some m \<Rightarrow> 0 \<le> mSampleIndex m
                  \<and> mSampleIndex m \<le> int (SWETotalSamples ex_ocean_constants)"
    by (simp add: ex_adjusted_ocean_def ex_wave_def SWEWaveStateMachine_new_def Let_def
        ex_total_samples)
  show ?thesis
    using ocean_mirror_after_update[OF ex_adjusted_ocean_reachable, of "1 / 50" "\<lambda>i. 0"]
      idx ex_adjusted_ocean_reachable
    by (auto simp: ex_total_samples)
qed

subsection \<open>The curve of the external wave\<close>

text \<open>
  The height the specification words for a phase: the interpolation from the start to
  the target height along a squared sine of the progress.
\<close>

definition sin_squared_height :: "real \<Rightarrow> real \<Rightarrow> real \<Rightarrow> real" where
  "sin_squared_height startHeight targetHeight progress =
     startHeight + (targetHeight - startHeight) * (sin (pi / 2 * min progress 1))\<^sup>2"

lemma CalculateSmoothingDelay_pos:
  assumes "0 < SimulationStepTimeDuration k"
  shows "0 < CalculateSmoothingDelay k m"
proof -
  have "0 < max x 1 * SimulationStepTimeDuration k" for x :: real
    using assms by (simp add: max_def)
  then show ?thesis
    by (simp add: CalculateSmoothingDelay_def Let_def)
qed

lemma ex_wave_delay_pos: "0 < mSmoothingDelay ex_wave"
  using CalculateSmoothingDelay_pos[of ex_ocean_constants]
  by (simp add: ex_wave_def SWEWaveStateMachine_new_def Let_def ex_ocean_constants_fields)

theorem rise_curve_counterexample:
  "mCurrentWavePhase ex_wave = Rise
   \<and> fst (SWEWaveStateMachine_Update ex_ocean_constants (mSmoothingDelay ex_wave / 3) ex_wave)
       = Some (100 + 1 / 20)
   \<and> sin_squared_height (mCurrentPhaseStartHeight ex_wave) (mCurrentPhaseTargetHeight ex_wave)
         ((mSmoothingDelay ex_wave / 3 - mStartSimulationTime ex_wave) / mSmoothingDelay ex_wave)
       = 100 + 1 / 40
   \<and> fst (SWEWaveStateMachine_Update ex_ocean_constants (mSmoothingDelay ex_wave / 3) ex_wave)
       \<noteq> Some (sin_squared_height (mCurrentPhaseStartHeight ex_wave)
                  (mCurrentPhaseTargetHeight ex_wave)
                  ((mSmoothingDelay ex_wave / 3 - mStartSimulationTime ex_wave)
                    / mSmoothingDelay ex_wave))"
proof -
  define d where "d = mSmoothingDelay ex_wave"
  have d: "0 < d" using ex_wave_delay_pos by (simp add: d_def)
  have f: "mCurrentWavePhase ex_wave = Rise" "mCurrentProgress ex_wave = 0"
    "mStartSimulationTime ex_wave = 0" "mCurrentPhaseStartHeight ex_wave = 100"
    "mCurrentPhaseTargetHeight ex_wave = 100 + 1 / 10"
    by (simp_all add: ex_wave_def SWEWaveStateMachine_new_def Let_def)
  have p: "(d / 3 - 0) / d = 1 / 3" using d by simp
  have s: "sin (pi / 6) = 1 / 2"
    by (rule sin_30)
  have u: "fst (SWEWaveStateMachine_Update ex_ocean_constants (d / 3) ex_wave)
      = Some (100 + 1 / 20)"
    using d by (simp add: SWEWaveStateMachine_Update_def Let_def f d_def[symmetric] p s)
  have q: "sin_squared_height (mCurrentPhaseStartHeight ex_wave) (mCurrentPhaseTargetHeight ex_wave)
         ((d / 3 - mStartSimulationTime ex_wave) / d) = 100 + 1 / 40"
    using d by (simp add: sin_squared_height_def f p power2_eq_square s)
  show ?thesis
    using f(1) u q unfolding d_def by simp
qed

text \<open>
  Claim C8, as amended. While in phase Rise, an update recomputes the progress as the
  time elapsed since the phase started divided by the smoothing delay (unless the
  progress had already reached 1) and sets the height to the phase start height plus the
  difference to the target height times the sine of a quarter turn times the progress
  capped at 1, a sine curve and not a squared one; the target height is reached when the
  progress reaches 1. When the progress has reached 1 in phase Rise and the release mode
  is automatic, the update starts the Fall phase from that height toward the stored low
  height. A release during Rise starts the Fall phase toward the stored low height. A
  restart in any phase starts a Rise phase from the current height toward the new target,
  keeps the stored low height, and computes the smoothing delay afresh.
\<close>

theorem external_wave_state_machine:
  "(mCurrentWavePhase m = Rise \<longrightarrow>
      (let progress = (if mCurrentProgress m < 1
                       then (t - mStartSimulationTime m) / mSmoothingDelay m
                       else mCurrentProgress m);
           height = mCurrentPhaseStartHeight m
                    + (mCurrentPhaseTargetHeight m - mCurrentPhaseStartHeight m)
                      * sin (pi / 2 * min progress 1);
           m1 = m\<lparr>mCurrentProgress := progress, mCurrentHeight := height\<rparr>
       in fst (SWEWaveStateMachine_Update k t m) = Some height
          \<and> (1 \<le> progress \<longrightarrow> height = mCurrentPhaseTargetHeight m)
          \<and> (progress < 1 \<or> mReleaseMode m = OnCue \<longrightarrow>
                snd (SWEWaveStateMachine_Update k t m) = m1)
          \<and> (1 \<le> progress \<and> mReleaseMode m = Automatic \<longrightarrow>
                snd (SWEWaveStateMachine_Update k t m) = StartFallPhase k t m1
                \<and> mCurrentWavePhase (snd (SWEWaveStateMachine_Update k t m)) = Fall
                \<and> mCurrentPhaseTargetHeight (snd (SWEWaveStateMachine_Update k t m))
                    = mLowHeight m
                \<and> mCurrentPhaseStartHeight (snd (SWEWaveStateMachine_Update k t m))
                    = height)))
   \<and> (mCurrentWavePhase m = Rise \<longrightarrow>
        mCurrentWavePhase (Release k t m) = Fall
        \<and> mCurrentPhaseTargetHeight (Release k t m) = mLowHeight m
        \<and> mCurrentPhaseStartHeight (Release k t m) = mCurrentHeight m
        \<and> mCurrentProgress (Release k t m) = 0
        \<and> mStartSimulationTime (Release k t m) = t
        \<and> mSmoothingDelay (Release k t m) = CalculateSmoothingDelay k (Release k t m))
   \<and> mCurrentWavePhase (Restart k target t m) = Rise
   \<and> mCurrentPhaseStartHeight (Restart k target t m) = mCurrentHeight m
   \<and> mCurrentPhaseTargetHeight (Restart k target t m) = target
   \<and> mCurrentProgress (Restart k target t m) = 0
   \<and> mStartSimulationTime (Restart k target t m) = t
   \<and> mLowHeight (Restart k target t m) = mLowHeight m
   \<and> mSmoothingDelay (Restart k target t m) = CalculateSmoothingDelay k (Restart k target t m)"
proof -
  have rise: "mCurrentWavePhase m = Rise \<longrightarrow>
      (let progress = (if mCurrentProgress m < 1
                       then (t - mStartSimulationTime m) / mSmoothingDelay m
                       else mCurrentProgress m);
           height = mCurrentPhaseStartHeight m
                    + (mCurrentPhaseTargetHeight m - mCurrentPhaseStartHeight m)
                      * sin (pi / 2 * min progress 1);
           m1 = m\<lparr>mCurrentProgress := progress, mCurrentHeight := height\<rparr>
       in fst (SWEWaveStateMachine_Update k t m) = Some height
          \<and> (1 \<le> progress \<longrightarrow> height = mCurrentPhaseTargetHeight m)
          \<and> (progress < 1 \<or> mReleaseMode m = OnCue \<longrightarrow>
                snd (SWEWaveStateMachine_Update k t m) = m1)
          \<and> (1 \<le> progress \<and> mReleaseMode m = Automatic \<longrightarrow>
                snd (SWEWaveStateMachine_Update k t m) = StartFallPhase k t m1
                \<and> mCurrentWavePhase (snd (SWEWaveStateMachine_Update k t m)) = Fall
                \<and> mCurrentPhaseTargetHeight (snd (SWEWaveStateMachine_Update k t m))
                    = mLowHeight m
                \<and> mCurrentPhaseStartHeight (snd (SWEWaveStateMachine_Update k t m))
                    = height))"
  proof (cases "mCurrentProgress m < 1")
    case True
    then show ?thesis
      by (cases "mReleaseMode m")
         (auto simp: SWEWaveStateMachine_Update_def Let_def StartFallPhase_def min_def)
  next
    case False
    then show ?thesis
      by (cases "mReleaseMode m")
         (auto simp: SWEWaveStateMachine_Update_def Let_def StartFallPhase_def min_def)
  qed
  have release: "mCurrentWavePhase m = Rise \<longrightarrow>
        mCurrentWavePhase (Release k t m) = Fall
        \<and> mCurrentPhaseTargetHeight (Release k t m) = mLowHeight m
        \<and> mCurrentPhaseStartHeight (Release k t m) = mCurrentHeight m
        \<and> mCurrentProgress (Release k t m) = 0
        \<and> mStartSimulationTime (Release k t m) = t
        \<and> mSmoothingDelay (Release k t m) = CalculateSmoothingDelay k (Release k t m)"
    by (simp add: Release_def StartFallPhase_def Let_def CalculateSmoothingDelay_def)
  have restart: "mCurrentWavePhase (Restart k target t m) = Rise
   \<and> mCurrentPhaseStartHeight (Restart k target t m) = mCurrentHeight m
   \<and> mCurrentPhaseTargetHeight (Restart k target t m) = target
   \<and> mCurrentProgress (Restart k target t m) = 0
   \<and> mStartSimulationTime (Restart k target t m) = t
   \<and> mLowHeight (Restart k target t m) = mLowHeight m
   \<and> mSmoothingDelay (Restart k target t m) = CalculateSmoothingDelay k (Restart k target t m)"
    by (simp add: Restart_def Let_def CalculateSmoothingDelay_def)
  from rise release restart show ?thesis by blast
qed

theorem external_wave_state_machine_witness:
  "mCurrentWavePhase ex_wave = Rise
   \<and> fst (SWEWaveStateMachine_Update ex_ocean_constants (mSmoothingDelay ex_wave) ex_wave)
       = Some (100 + 1 / 10)
   \<and> mCurrentWavePhase (Release ex_ocean_constants 1 ex_wave) = Fall
   \<and> mCurrentPhaseTargetHeight (Release ex_ocean_constants 1 ex_wave) = 100"
proof -
  have f: "mCurrentWavePhase ex_wave = Rise" "mCurrentProgress ex_wave = 0"
    "mStartSimulationTime ex_wave = 0" "mCurrentPhaseStartHeight ex_wave = 100"
    "mCurrentPhaseTargetHeight ex_wave = 100 + 1 / 10" "mLowHeight ex_wave = 100"
    by (simp_all add: ex_wave_def SWEWaveStateMachine_new_def Let_def)
  have d: "mSmoothingDelay ex_wave \<noteq> 0"
    using ex_wave_delay_pos by simp
  show ?thesis
    using external_wave_state_machine[of ex_wave "mSmoothingDelay ex_wave" ex_ocean_constants]
      external_wave_state_machine[of ex_wave 1 ex_ocean_constants] d
    by (simp add: f Let_def)
qed

section \<open>Combustion\<close>

text \<open>
  What the combustion passes take from outside the particle store: the parent world's
  underwater test, the vector normalisation and the smooth step of the math headers, the
  draws of the random engine made during a pass (the value of \<open>Choose(6)\<close> and the
  successive normalized reals), and the library routine \<open>std::nth_element\<close> applied
  with the comparator of the pass (greater key first). None of them is among the
  sources; they are the fields of \<open>CombustionEnv\<close>.
\<close>

record CombustionEnv =
  IsUnderwater :: "vec2f \<Rightarrow> bool"
  normalise :: "vec2f \<Rightarrow> vec2f"
  SmoothStep :: "real \<Rightarrow> real \<Rightarrow> real \<Rightarrow> real"
  Choose :: "nat \<Rightarrow> nat"
  GenerateRandomNormalizedReal :: "nat \<Rightarrow> real"
  nth_element :: "nat \<Rightarrow> (ElementIndex \<times> real) list \<Rightarrow> (ElementIndex \<times> real) list"

text \<open>
  The guarantee of \<open>std::nth_element\<close> for the comparator "greater key first": the
  range is permuted, and no element from the nth position on has a greater key than
  an element before the nth position.
\<close>

definition nth_element_contract ::
  "(nat \<Rightarrow> (ElementIndex \<times> real) list \<Rightarrow> (ElementIndex \<times> real) list) \<Rightarrow> bool"
where
  "nth_element_contract f \<longleftrightarrow>
     (\<forall>n xs. n \<le> length xs \<longrightarrow>
        mset (f n xs) = mset xs
        \<and> (\<forall>i j. i < n \<and> n \<le> j \<and> j < length xs \<longrightarrow> snd (f n xs ! j) \<le> snd (f n xs ! i)))"

definition dot :: "vec2f \<Rightarrow> vec2f \<Rightarrow> real" where
  "dot a b = fst a * fst b + snd a * snd b"

definition GetTemperature :: "Points \<Rightarrow> ElementIndex \<Rightarrow> real" where
  "GetTemperature s p = mTemperatureBuffer s ! p"

definition GetPosition :: "Points \<Rightarrow> ElementIndex \<Rightarrow> vec2f" where
  "GetPosition s p = mPositionBuffer s ! p"

definition GetDecay :: "Points \<Rightarrow> ElementIndex \<Rightarrow> real" where
  "GetDecay s p = mDecayBuffer s ! p"

definition GetConnectedSprings :: "Points \<Rightarrow> ElementIndex \<Rightarrow> ConnectedSpring list" where
  "GetConnectedSprings s p = mConnectedSpringsBuffer s ! p"

definition GetState :: "Points \<Rightarrow> ElementIndex \<Rightarrow> StateType" where
  "GetState s p = State (mCombustionStateBuffer s ! p)"

definition set_State :: "ElementIndex \<Rightarrow> StateType \<Rightarrow> Points \<Rightarrow> Points" where
  "set_State p st s =
     s\<lparr>mCombustionStateBuffer :=
         (mCombustionStateBuffer s)[p := (mCombustionStateBuffer s ! p)\<lparr>State := st\<rparr>]\<rparr>"

definition set_FlameDevelopment :: "ElementIndex \<Rightarrow> real \<Rightarrow> Points \<Rightarrow> Points" where
  "set_FlameDevelopment p d s =
     s\<lparr>mCombustionStateBuffer :=
         (mCombustionStateBuffer s)[p := (mCombustionStateBuffer s ! p)\<lparr>FlameDevelopment := d\<rparr>]\<rparr>"

definition notify :: "GameEvent \<Rightarrow> Points \<Rightarrow> Points" where
  "notify ev s = s\<lparr>mGameEventHandler := mGameEventHandler s @ [ev]\<rparr>"

subsection \<open>\<open>OnOrphaned\<close>\<close>

definition OnOrphaned :: "real \<Rightarrow> ElementIndex \<Rightarrow> Points \<Rightarrow> Points" where
  "OnOrphaned randomReal pointElementIndex s =
     (if GetState s pointElementIndex = Burning
      then set_FlameDevelopment pointElementIndex randomReal s
      else s)"

subsection \<open>The low-frequency pass\<close>

definition effectiveIgnitionTemperature :: "GameParameters \<Rightarrow> Points \<Rightarrow> ElementIndex \<Rightarrow> real" where
  "effectiveIgnitionTemperature gp s p =
     mMaterialIgnitionTemperatureBuffer s ! p * IgnitionTemperatureAdjustment gp"

definition ignition_key :: "GameParameters \<Rightarrow> Points \<Rightarrow> ElementIndex \<Rightarrow> real" where
  "ignition_key gp s p =
     (GetTemperature s p - effectiveIgnitionTemperature gp s p)
       / effectiveIgnitionTemperature gp s p"

definition decay_point :: "real \<Rightarrow> ElementIndex \<Rightarrow> Points \<Rightarrow> Points" where
  "decay_point decayAlpha p s =
     s\<lparr>mDecayBuffer := (mDecayBuffer s)[p := mDecayBuffer s ! p * decayAlpha]\<rparr>"

text \<open>The body of the scan loop of the low-frequency pass, for one point.\<close>

definition lowfreq_point ::
  "CombustionEnv \<Rightarrow> GameParameters \<Rightarrow> real \<Rightarrow> ElementIndex \<Rightarrow> Points \<Rightarrow> Points"
where
  "lowfreq_point e gp effectiveCombustionDecayRate pointIndex s =
     (let currentState = GetState s pointIndex
      in if currentState = NotBurning
         then
           (if GetTemperature s pointIndex
                 \<ge> effectiveIgnitionTemperature gp s pointIndex
                     + IgnitionTemperatureHighWatermark gp
               \<and> \<not> IsUnderwater e (GetPosition s pointIndex)
               \<and> GetWater s pointIndex < SmotheringWaterLowWatermark gp
               \<and> GetDecay s pointIndex > SmotheringDecayHighWatermark gp
            then s\<lparr>mIgnitionCandidates :=
                     mIgnitionCandidates s @ [(pointIndex, ignition_key gp s pointIndex)]\<rparr>
            else s)
         else if currentState = Burning
         then
           (if GetTemperature s pointIndex
                 \<le> effectiveIgnitionTemperature gp s pointIndex
                     + IgnitionTemperatureLowWatermark gp
               \<or> GetDecay s pointIndex < SmotheringDecayLowWatermark gp
            then notify OnPointCombustionEnd (set_State pointIndex Extinguishing_Consumed s)
            else
              (let massMultiplier = (Mass (mMaterialsBuffer s ! pointIndex) / 750) powr (15 / 100);
                   totalDecaySteps = effectiveCombustionDecayRate * massMultiplier;
                   decayAlpha = (1 / 100) powr (1 / totalDecaySteps)
               in fold (\<lambda>cs. decay_point decayAlpha (OtherEndpointIndex cs))
                    (GetConnectedSprings s pointIndex)
                    (decay_point decayAlpha pointIndex s)))
         else s)"

text \<open>
  The scan loop: it starts at the offset and adds the stride, in 32-bit arithmetic,
  until the cursor reaches the number of ship points. A run that never ends (a stride of
  zero) is the value \<open>None\<close>.
\<close>

partial_function (option) lowfreq_loop ::
  "CombustionEnv \<Rightarrow> GameParameters \<Rightarrow> real \<Rightarrow> nat \<Rightarrow> ElementIndex \<Rightarrow> Points \<Rightarrow> Points option"
where
  "lowfreq_loop e gp effectiveCombustionDecayRate pointStride pointIndex s =
     (if pointIndex < mShipPointCount s
      then lowfreq_loop e gp effectiveCombustionDecayRate pointStride
             ((pointIndex + pointStride) mod 4294967296)
             (lowfreq_point e gp effectiveCombustionDecayRate pointIndex s)
      else Some s)"

text \<open>
  \<open>std::lower_bound\<close> as the standard libraries implement it: a binary search for the
  first position whose element does not precede the value.
\<close>

function lower_bound_loop :: "('a \<Rightarrow> bool) \<Rightarrow> 'a list \<Rightarrow> nat \<Rightarrow> nat \<Rightarrow> nat" where
  "lower_bound_loop precedes xs first len =
     (if 0 < len
      then (let half = len div 2; middle = first + half
            in if precedes (xs ! middle)
               then lower_bound_loop precedes xs (middle + 1) (len - half - 1)
               else lower_bound_loop precedes xs first half)
      else first)"
  by pat_completeness auto
termination
  by (relation "measure (\<lambda>(precedes, xs, first, len). len)") auto

definition lower_bound :: "'a list \<Rightarrow> 'a \<Rightarrow> ('a \<Rightarrow> 'a \<Rightarrow> bool) \<Rightarrow> nat" where
  "lower_bound xs val cmp = lower_bound_loop (\<lambda>x. cmp x val) xs 0 (length xs)"

definition insert_at :: "nat \<Rightarrow> 'a \<Rightarrow> 'a list \<Rightarrow> 'a list" where
  "insert_at pos x xs = take pos xs @ x # drop pos xs"

definition max_points_to_ignite :: "CombustionEnv \<Rightarrow> GameParameters \<Rightarrow> Points \<Rightarrow> nat" where
  "max_points_to_ignite e gp s =
     min (min (4 + Choose e 6)
              (if length (mBurningPoints s) < MaxBurningParticles gp
               then MaxBurningParticles gp - length (mBurningPoints s)
               else 0))
         (length (mIgnitionCandidates s))"

definition ignite_point :: "CombustionEnv \<Rightarrow> nat \<Rightarrow> Points \<Rightarrow> Points" where
  "ignite_point e i s =
     (let pointIndex = fst (mIgnitionCandidates s ! i);
          flameDevelopment =
            1 / 10 + 1 / 2 * SmoothStep e 0 2 (snd (mIgnitionCandidates s ! i));
          personality = GenerateRandomNormalizedReal e i;
          deltaSizeDueToConnectedSprings =
            real (length (mConnectedSpringsBuffer s ! pointIndex)) * (625 / 10000);
          maxFlameDevelopment =
            max (25 / 100 + deltaSizeDueToConnectedSprings + 1 / 2 * personality)
                flameDevelopment;
          s1 = s\<lparr>mCombustionStateBuffer :=
                    (mCombustionStateBuffer s)
                      [pointIndex :=
                         \<lparr>State = Developing_1, FlameDevelopment = flameDevelopment,
                          MaxFlameDevelopment = maxFlameDevelopment,
                          Personality = personality\<rparr>]\<rparr>;
          pos = lower_bound (mBurningPoints s1) pointIndex
                  (\<lambda>p1 p2. mPlaneIdBuffer s1 ! p1 < mPlaneIdBuffer s1 ! p2);
          s2 = s1\<lparr>mBurningPoints := insert_at pos pointIndex (mBurningPoints s1)\<rparr>
      in notify OnPointCombustionBegin s2)"

definition ignite_candidates :: "CombustionEnv \<Rightarrow> GameParameters \<Rightarrow> Points \<Rightarrow> Points" where
  "ignite_candidates e gp s =
     (let maxPoints = max_points_to_ignite e gp s;
          s1 = s\<lparr>mIgnitionCandidates := nth_element e maxPoints (mIgnitionCandidates s)\<rparr>
      in fold (ignite_point e) [0 ..< maxPoints] s1)"

definition UpdateCombustionLowFrequency ::
  "CombustionEnv \<Rightarrow> ElementIndex \<Rightarrow> ElementIndex \<Rightarrow> real \<Rightarrow> GameParameters \<Rightarrow> Points
   \<Rightarrow> Points option"
where
  "UpdateCombustionLowFrequency e pointOffset pointStride dt gp s =
     (let s0 = s\<lparr>mIgnitionCandidates := []\<rparr>;
          effectiveCombustionDecayRate = 90 / (CombustionSpeedAdjustment gp * dt)
      in case lowfreq_loop e gp effectiveCombustionDecayRate pointStride pointOffset s0 of
           None \<Rightarrow> None
         | Some s1 \<Rightarrow> Some (ignite_candidates e gp s1))"

subsection \<open>The high-frequency pass\<close>

text \<open>
  Modelled from the spec: \<open>SmotherCombustion\<close> (defined in a header that is not among
  the sources) makes the transition to the state extinguishing by smothering.
\<close>

definition SmotherCombustion :: "ElementIndex \<Rightarrow> Points \<Rightarrow> Points" where
  "SmotherCombustion pointIndex s = set_State pointIndex Extinguishing_Smothered s"

definition heat_neighbour ::
  "CombustionEnv \<Rightarrow> GameParameters \<Rightarrow> real \<Rightarrow> ElementIndex \<Rightarrow> ConnectedSpring \<Rightarrow> Points
   \<Rightarrow> Points"
where
  "heat_neighbour e gp effectiveCombustionHeat pointIndex cs s =
     (let otherEndpointIndex = OtherEndpointIndex cs;
          springDir = normalise e
            (fst (GetPosition s otherEndpointIndex) - fst (GetPosition s pointIndex),
             snd (GetPosition s otherEndpointIndex) - snd (GetPosition s pointIndex));
          dirAlpha = 2 / 10 + 15 / 10 * (1 - dot springDir (GravityNormalized gp))
      in s\<lparr>mTemperatureBuffer := (mTemperatureBuffer s)
             [otherEndpointIndex :=
                mTemperatureBuffer s ! otherEndpointIndex
                + effectiveCombustionHeat * dirAlpha
                  / (mMaterialHeatCapacityBuffer s ! otherEndpointIndex)]\<rparr>)"

definition generate_heat ::
  "CombustionEnv \<Rightarrow> GameParameters \<Rightarrow> real \<Rightarrow> ElementIndex \<Rightarrow> Points \<Rightarrow> Points"
where
  "generate_heat e gp effectiveCombustionHeat pointIndex s =
     (let s1 = s\<lparr>mTemperatureBuffer := (mTemperatureBuffer s)
                   [pointIndex :=
                      mMaterialIgnitionTemperatureBuffer s ! pointIndex
                      * IgnitionTemperatureAdjustment gp * (11 / 10)]\<rparr>
      in fold (heat_neighbour e gp effectiveCombustionHeat pointIndex)
           (GetConnectedSprings s1 pointIndex) s1)"

text \<open>
  When the flame has died down the point stops burning: \<open>std::find\<close> followed by
  \<open>erase\<close> removes its first occurrence from the burning list. The code asserts that the
  point is found; it is, in every state that meets the invariant of the list
  (\<open>highfreq_point_removes_listed\<close> below).
\<close>

definition stop_burning_if_done :: "ElementIndex \<Rightarrow> Points \<Rightarrow> Points" where
  "stop_burning_if_done pointIndex s =
     (if FlameDevelopment (mCombustionStateBuffer s ! pointIndex) \<le> 2 / 100
      then (let s1 = set_State pointIndex NotBurning s
            in s1\<lparr>mBurningPoints := remove1 pointIndex (mBurningPoints s1)\<rparr>)
      else s)"

definition develop_point :: "ElementIndex \<Rightarrow> Points \<Rightarrow> Points" where
  "develop_point pointIndex s =
     (let cs = mCombustionStateBuffer s ! pointIndex
      in case State cs of
           Developing_1 \<Rightarrow>
             (let s1 = set_FlameDevelopment pointIndex
                         (FlameDevelopment cs + 105 / 1000 * FlameDevelopment cs) s
              in if FlameDevelopment (mCombustionStateBuffer s1 ! pointIndex)
                      > MaxFlameDevelopment (mCombustionStateBuffer s1 ! pointIndex) + 2 / 10
                 then set_State pointIndex Developing_2 s1
                 else s1)
         | Developing_2 \<Rightarrow>
             (let extraFlameDevelopment0 = FlameDevelopment cs - MaxFlameDevelopment cs;
                  extraFlameDevelopment =
                    extraFlameDevelopment0 - 2 / 10 * extraFlameDevelopment0;
                  s1 = set_FlameDevelopment pointIndex
                         (MaxFlameDevelopment cs + extraFlameDevelopment) s
              in if extraFlameDevelopment < 2 / 100
                 then set_FlameDevelopment pointIndex (MaxFlameDevelopment cs)
                        (set_State pointIndex Burning s1)
                 else s1)
         | Extinguishing_Consumed \<Rightarrow>
             stop_burning_if_done pointIndex
               (set_FlameDevelopment pointIndex
                  (FlameDevelopment cs
                   - 625 / 10000 * (MaxFlameDevelopment cs - FlameDevelopment cs + 1 / 100)) s)
         | Extinguishing_Smothered \<Rightarrow>
             stop_burning_if_done pointIndex
               (set_FlameDevelopment pointIndex
                  (FlameDevelopment cs - 3 / 10 * FlameDevelopment cs) s)
         | Burning \<Rightarrow> s
         | NotBurning \<Rightarrow> s)"

text \<open>The body of the loop of the high-frequency pass, for one burning point.\<close>

definition highfreq_point ::
  "CombustionEnv \<Rightarrow> GameParameters \<Rightarrow> real \<Rightarrow> ElementIndex \<Rightarrow> Points \<Rightarrow> Points"
where
  "highfreq_point e gp effectiveCombustionHeat pointIndex s =
     (let currentState = GetState s pointIndex;
          s1 = (if (currentState = Developing_1 \<or> currentState = Developing_2
                    \<or> currentState = Burning \<or> currentState = Extinguishing_Consumed)
                   \<and> (IsUnderwater e (GetPosition s pointIndex)
                       \<or> GetWater s pointIndex > SmotheringWaterHighWatermark gp)
                then SmotherCombustion pointIndex s
                else if currentState = Burning
                then generate_heat e gp effectiveCombustionHeat pointIndex s
                else s)
      in develop_point pointIndex s1)"

text \<open>
  The loop of the pass is a range-for over the burning list: its begin and end positions
  are taken once, when the pass begins, and it reads one cell of the list's storage after
  another until it arrives at that end. Removing a point inside the loop moves the
  entries after it one cell down and shortens the list; the cells past the new end keep
  what they held, and the loop, whose end position is the old one, goes on to read them.
  So after a removal the entry that followed the removed point is passed over, and the
  loop ends by reading old cells past the end of the list (after one removal, the last
  entry a second time). \<open>cells\<close> is the storage as the loop sees it: the list, followed by
  the old cells past its end.
\<close>

definition highfreq_visit ::
  "CombustionEnv \<Rightarrow> GameParameters \<Rightarrow> real \<Rightarrow> nat \<Rightarrow> ElementIndex list \<times> Points
   \<Rightarrow> ElementIndex list \<times> Points"
where
  "highfreq_visit e gp effectiveCombustionHeat i cs =
     (let cells = fst cs;
          s' = highfreq_point e gp effectiveCombustionHeat (cells ! i) (snd cs)
      in (mBurningPoints s' @ drop (length (mBurningPoints s')) cells, s'))"

definition UpdateCombustionHighFrequency ::
  "CombustionEnv \<Rightarrow> real \<Rightarrow> GameParameters \<Rightarrow> Points \<Rightarrow> Points"
where
  "UpdateCombustionHighFrequency e dt gp s =
     (let effectiveCombustionHeat = 100 * 1000 * dt * CombustionHeatAdjustment gp
      in snd (fold (highfreq_visit e gp effectiveCombustionHeat)
                [0 ..< length (mBurningPoints s)] (mBurningPoints s, s)))"

definition ReorderBurningPointsForDepth ::
  "(ElementIndex list \<Rightarrow> ElementIndex list) \<Rightarrow> Points \<Rightarrow> Points"
where
  "ReorderBurningPointsForDepth std_sort s = s\<lparr>mBurningPoints := std_sort (mBurningPoints s)\<rparr>"

subsection \<open>The scan of the low-frequency pass\<close>

text \<open>The points the scan visits: the offset, then every stride-th point below the count.\<close>

function stride_points :: "nat \<Rightarrow> nat \<Rightarrow> nat \<Rightarrow> nat list" where
  "stride_points p stride n =
     (if p < n \<and> 0 < stride then p # stride_points (p + stride) stride n else [])"
  by pat_completeness auto
termination
  by (relation "measure (\<lambda>(p, stride, n). n - p)") auto

declare stride_points.simps [simp del]

lemma stride_points_bounds: "q \<in> set (stride_points p stride n) \<Longrightarrow> p \<le> q \<and> q < n"
proof (induction p stride n rule: stride_points.induct)
  case (1 p stride n)
  show ?case
  proof (cases "p < n \<and> 0 < stride")
    case True
    then have "q = p \<or> q \<in> set (stride_points (p + stride) stride n)"
      using "1.prems" by (subst (asm) stride_points.simps) auto
    then show ?thesis
      using "1.IH"[OF True] True by auto
  next
    case False
    then show ?thesis
      using "1.prems" by (subst (asm) stride_points.simps) auto
  qed
qed

lemma stride_points_distinct: "distinct (stride_points p stride n)"
proof (induction p stride n rule: stride_points.induct)
  case (1 p stride n)
  show ?case
  proof (cases "p < n \<and> 0 < stride")
    case True
    have "p \<notin> set (stride_points (p + stride) stride n)"
      using stride_points_bounds[of p "p + stride" stride n] True by auto
    then show ?thesis
      using "1.IH"[OF True] True by (subst stride_points.simps) simp
  next
    case False
    have "stride_points p stride n = []"
      using False by (subst stride_points.simps) simp
    then show ?thesis by simp
  qed
qed

lemma lowfreq_point_counts:
  "mShipPointCount (lowfreq_point e gp r p s) = mShipPointCount s"
proof -
  have d: "mShipPointCount (fold (\<lambda>cs. decay_point a (OtherEndpointIndex cs)) css t)
      = mShipPointCount t" for a css t
    by (induction css arbitrary: t) (simp_all add: decay_point_def)
  show ?thesis
    by (simp add: lowfreq_point_def Let_def d notify_def set_State_def decay_point_def)
qed

lemma lowfreq_loop_fold:
  "0 < stride \<Longrightarrow> n + stride \<le> 4294967296 \<Longrightarrow> mShipPointCount s = n \<Longrightarrow>
   lowfreq_loop e gp r stride p s
     = Some (fold (lowfreq_point e gp r) (stride_points p stride n) s)"
proof (induction p stride n arbitrary: s rule: stride_points.induct)
  case (1 p stride n)
  show ?case
  proof (cases "p < n")
    case True
    have "p + stride < 4294967296"
      using True "1.prems" by linarith
    then have nowrap: "(p + stride) mod 4294967296 = p + stride"
      by (rule mod_less)
    have cnt: "mShipPointCount (lowfreq_point e gp r p s) = n"
      using "1.prems" by (simp add: lowfreq_point_counts)
    have "lowfreq_loop e gp r stride p s
        = lowfreq_loop e gp r stride (p + stride) (lowfreq_point e gp r p s)"
      using True "1.prems" nowrap by (subst lowfreq_loop.simps) simp
    also have "\<dots> = Some (fold (lowfreq_point e gp r) (stride_points (p + stride) stride n)
        (lowfreq_point e gp r p s))"
      using "1.IH" True "1.prems" cnt by simp
    also have "\<dots> = Some (fold (lowfreq_point e gp r) (stride_points p stride n) s)"
      using True "1.prems" by (subst (2) stride_points.simps) simp
    finally show ?thesis .
  next
    case False
    have "stride_points p stride n = []"
      using False by (subst stride_points.simps) simp
    then show ?thesis
      using False "1.prems" by (subst lowfreq_loop.simps) simp
  qed
qed

text \<open>
  What the scan leaves untouched, relative to the store \<open>s0\<close> at the start of the
  pass: the counts, the burning list, the temperatures and ignition temperatures, the
  size of the combustion state buffer; a combustion state changes only from burning to
  extinguishing by consumption.
\<close>

definition scan_frame :: "Points \<Rightarrow> Points \<Rightarrow> bool" where
  "scan_frame s0 s \<longleftrightarrow>
     mShipPointCount s = mShipPointCount s0
     \<and> mBurningPoints s = mBurningPoints s0
     \<and> length (mCombustionStateBuffer s) = length (mCombustionStateBuffer s0)
     \<and> mTemperatureBuffer s = mTemperatureBuffer s0
     \<and> mMaterialIgnitionTemperatureBuffer s = mMaterialIgnitionTemperatureBuffer s0
     \<and> (\<forall>p < length (mCombustionStateBuffer s0).
           GetState s p = GetState s0 p
           \<or> (GetState s0 p = Burning \<and> GetState s p = Extinguishing_Consumed))"

definition candidates_ok ::
  "GameParameters \<Rightarrow> Points \<Rightarrow> (ElementIndex \<times> real) list \<Rightarrow> bool"
where
  "candidates_ok gp s0 cands \<longleftrightarrow>
     distinct (map fst cands)
     \<and> (\<forall>c \<in> set cands.
           fst c < mShipPointCount s0
           \<and> GetState s0 (fst c) = NotBurning
           \<and> snd c = ignition_key gp s0 (fst c))"

lemma decay_fold_only_decay:
  "\<exists>d. fold (\<lambda>cs. decay_point a (OtherEndpointIndex cs)) (css :: ConnectedSpring list) t
         = t\<lparr>mDecayBuffer := d\<rparr>"
proof (induction css arbitrary: t)
  case Nil
  show ?case by (rule exI[of _ "mDecayBuffer t"]) simp
next
  case (Cons cs css)
  obtain d where d: "fold (\<lambda>cs. decay_point a (OtherEndpointIndex cs)) css
      (decay_point a (OtherEndpointIndex cs) t)
      = (decay_point a (OtherEndpointIndex cs) t)\<lparr>mDecayBuffer := d\<rparr>"
    using Cons.IH by blast
  have "(decay_point a (OtherEndpointIndex cs) t)\<lparr>mDecayBuffer := d\<rparr> = t\<lparr>mDecayBuffer := d\<rparr>"
    by (simp add: decay_point_def)
  with d show ?case
    by (intro exI[of _ d]) simp
qed

lemma lowfreq_point_cases:
  "(GetState s p = NotBurning
      \<and> lowfreq_point e gp r p s
          = s\<lparr>mIgnitionCandidates := mIgnitionCandidates s @ [(p, ignition_key gp s p)]\<rparr>)
   \<or> lowfreq_point e gp r p s = s
   \<or> (GetState s p = Burning
       \<and> lowfreq_point e gp r p s
           = notify OnPointCombustionEnd (set_State p Extinguishing_Consumed s))
   \<or> (\<exists>d. lowfreq_point e gp r p s = s\<lparr>mDecayBuffer := d\<rparr>)"
proof -
  have dec: "\<exists>d. fold (\<lambda>cs. decay_point a (OtherEndpointIndex cs)) css (decay_point a p s)
      = s\<lparr>mDecayBuffer := d\<rparr>" for a and css :: "ConnectedSpring list"
  proof -
    obtain d where d: "fold (\<lambda>cs. decay_point a (OtherEndpointIndex cs)) css (decay_point a p s)
        = (decay_point a p s)\<lparr>mDecayBuffer := d\<rparr>"
      using decay_fold_only_decay by blast
    have "(decay_point a p s)\<lparr>mDecayBuffer := d\<rparr> = s\<lparr>mDecayBuffer := d\<rparr>"
      by (simp add: decay_point_def)
    with d show ?thesis
      by (intro exI[of _ d]) simp
  qed
  show ?thesis
    unfolding lowfreq_point_def Let_def
    using dec by (cases "GetState s p") auto
qed

lemma ignition_key_frame:
  "mTemperatureBuffer s = mTemperatureBuffer s0
   \<Longrightarrow> mMaterialIgnitionTemperatureBuffer s = mMaterialIgnitionTemperatureBuffer s0
   \<Longrightarrow> ignition_key gp s p = ignition_key gp s0 p"
  by (simp add: ignition_key_def effectiveIgnitionTemperature_def GetTemperature_def)

lemma GetState_set_State:
  "q < length (mCombustionStateBuffer s)
   \<Longrightarrow> GetState (set_State p st s) q = (if q = p then st else GetState s q)"
  by (simp add: GetState_def set_State_def nth_list_update)

lemma lowfreq_point_step:
  assumes fr: "scan_frame s0 s"
    and p: "p < mShipPointCount s0"
    and len: "mShipPointCount s0 \<le> length (mCombustionStateBuffer s0)"
    and ok: "candidates_ok gp s0 (mIgnitionCandidates s)"
    and new: "p \<notin> fst ` set (mIgnitionCandidates s)"
  shows "scan_frame s0 (lowfreq_point e gp r p s)
         \<and> candidates_ok gp s0 (mIgnitionCandidates (lowfreq_point e gp r p s))
         \<and> fst ` set (mIgnitionCandidates (lowfreq_point e gp r p s))
             \<subseteq> insert p (fst ` set (mIgnitionCandidates s))"
proof -
  let ?s' = "lowfreq_point e gp r p s"
  have plen: "p < length (mCombustionStateBuffer s0)" using p len by simp
  consider
    (cand) "GetState s p = NotBurning"
      "?s' = s\<lparr>mIgnitionCandidates := mIgnitionCandidates s @ [(p, ignition_key gp s p)]\<rparr>"
    | (same) "?s' = s"
    | (ext) "GetState s p = Burning"
        "?s' = notify OnPointCombustionEnd (set_State p Extinguishing_Consumed s)"
    | (decay) d where "?s' = s\<lparr>mDecayBuffer := d\<rparr>"
    using lowfreq_point_cases[of s p e gp r] by blast
  then show ?thesis
  proof cases
    case cand
    have "GetState s0 p = NotBurning"
      using fr plen cand(1) by (auto simp: scan_frame_def)
    moreover have "ignition_key gp s p = ignition_key gp s0 p"
      using fr by (intro ignition_key_frame) (simp_all add: scan_frame_def)
    ultimately have "candidates_ok gp s0 (mIgnitionCandidates ?s')"
      using ok new p by (auto simp: candidates_ok_def cand(2))
    moreover have "scan_frame s0 ?s'"
      using fr by (simp add: scan_frame_def cand(2) GetState_def)
    ultimately show ?thesis by (auto simp: cand(2))
  next
    case same
    with fr ok show ?thesis by auto
  next
    case ext
    have b0: "GetState s0 p = Burning"
      using fr plen ext(1) by (auto simp: scan_frame_def)
    have st: "GetState ?s' q = (if q = p then Extinguishing_Consumed else GetState s q)"
      if "q < length (mCombustionStateBuffer s0)" for q
      using that fr GetState_set_State[of q s p Extinguishing_Consumed]
      by (simp add: ext(2) scan_frame_def notify_def GetState_def)
    have "scan_frame s0 ?s'"
      unfolding scan_frame_def
    proof (intro conjI allI impI)
      fix q assume q: "q < length (mCombustionStateBuffer s0)"
      show "GetState ?s' q = GetState s0 q
          \<or> GetState s0 q = Burning \<and> GetState ?s' q = Extinguishing_Consumed"
        using st[OF q] fr q b0 by (auto simp: scan_frame_def)
    qed (use fr in \<open>simp_all add: scan_frame_def ext(2) notify_def set_State_def\<close>)
    moreover have "mIgnitionCandidates ?s' = mIgnitionCandidates s"
      by (simp add: ext(2) notify_def set_State_def)
    ultimately show ?thesis using ok by auto
  next
    case decay
    have "scan_frame s0 ?s'"
      using fr by (simp add: scan_frame_def decay GetState_def)
    with ok show ?thesis by (auto simp: decay)
  qed
qed

lemma scan_fold:
  assumes len: "mShipPointCount s0 \<le> length (mCombustionStateBuffer s0)"
  shows "scan_frame s0 s \<Longrightarrow> candidates_ok gp s0 (mIgnitionCandidates s)
     \<Longrightarrow> distinct ps \<Longrightarrow> \<forall>p \<in> set ps. p < mShipPointCount s0
     \<Longrightarrow> set ps \<inter> fst ` set (mIgnitionCandidates s) = {}
     \<Longrightarrow> scan_frame s0 (fold (lowfreq_point e gp r) ps s)
         \<and> candidates_ok gp s0 (mIgnitionCandidates (fold (lowfreq_point e gp r) ps s))"
proof (induction ps arbitrary: s)
  case Nil
  then show ?case by simp
next
  case (Cons p ps)
  have step: "scan_frame s0 (lowfreq_point e gp r p s)"
    "candidates_ok gp s0 (mIgnitionCandidates (lowfreq_point e gp r p s))"
    "fst ` set (mIgnitionCandidates (lowfreq_point e gp r p s))
       \<subseteq> insert p (fst ` set (mIgnitionCandidates s))"
    using lowfreq_point_step[OF Cons.prems(1) _ len Cons.prems(2), where p = p and e = e and r = r]
      Cons.prems(4,5)
    by auto
  have disj: "set ps \<inter> fst ` set (mIgnitionCandidates (lowfreq_point e gp r p s)) = {}"
    using step(3) Cons.prems(3,5) by auto
  show ?case
    using Cons.IH[OF step(1) step(2) _ _ disj] Cons.prems(3,4) by simp
qed

text \<open>The store after the scan of a low-frequency pass.\<close>

lemma lowfreq_scan:
  assumes "0 < stride" "mShipPointCount s + stride \<le> 4294967296"
    and "mShipPointCount s \<le> length (mCombustionStateBuffer s)"
  shows "\<exists>s1. lowfreq_loop e gp r stride offset (s\<lparr>mIgnitionCandidates := []\<rparr>) = Some s1
           \<and> scan_frame s s1 \<and> candidates_ok gp s (mIgnitionCandidates s1)"
proof -
  let ?s0 = "s\<lparr>mIgnitionCandidates := []\<rparr>"
  let ?ps = "stride_points offset stride (mShipPointCount s)"
  have loop: "lowfreq_loop e gp r stride offset ?s0 = Some (fold (lowfreq_point e gp r) ?ps ?s0)"
    using lowfreq_loop_fold[of stride "mShipPointCount s" ?s0 e gp r offset] assms(1,2)
    by simp
  have fr: "scan_frame s ?s0"
    by (simp add: scan_frame_def GetState_def)
  have ok: "candidates_ok gp s (mIgnitionCandidates ?s0)"
    by (simp add: candidates_ok_def)
  have "scan_frame s (fold (lowfreq_point e gp r) ?ps ?s0)
      \<and> candidates_ok gp s (mIgnitionCandidates (fold (lowfreq_point e gp r) ?ps ?s0))"
    using scan_fold[OF assms(3) fr ok stride_points_distinct, where e = e and r = r]
      stride_points_bounds[of _ offset stride "mShipPointCount s"]
    by auto
  with loop show ?thesis by blast
qed

subsection \<open>The ignition of the selected candidates\<close>

lemma set_insert_at: "set (insert_at pos x xs) = insert x (set xs)"
proof -
  have "set (take pos xs) \<union> set (drop pos xs) = set xs"
    using set_append[of "take pos xs" "drop pos xs"] by simp
  then show ?thesis by (auto simp: insert_at_def)
qed

lemma length_insert_at: "length (insert_at pos x xs) = Suc (length xs)"
  by (simp add: insert_at_def)

lemma distinct_insert_at:
  assumes "distinct xs" "x \<notin> set xs"
  shows "distinct (insert_at pos x xs)"
proof -
  have "set (take pos xs) \<inter> set (drop pos xs) = {}"
    using assms(1) by (simp add: set_take_disj_set_drop_if_distinct)
  moreover have "x \<notin> set (take pos xs)" "x \<notin> set (drop pos xs)"
    using assms(2) in_set_takeD in_set_dropD by fast+
  ultimately show ?thesis
    using assms(1) by (auto simp: insert_at_def)
qed

lemma ignite_point_fields:
  "mIgnitionCandidates (ignite_point e i s) = mIgnitionCandidates s"
  "mShipPointCount (ignite_point e i s) = mShipPointCount s"
  by (simp_all add: ignite_point_def Let_def notify_def)

lemma ignite_point_state:
  "\<exists>cs. State cs = Developing_1
        \<and> mCombustionStateBuffer (ignite_point e i s)
            = (mCombustionStateBuffer s)[fst (mIgnitionCandidates s ! i) := cs]"
proof -
  let ?fd = "1 / 10 + 1 / 2 * SmoothStep e 0 2 (snd (mIgnitionCandidates s ! i))"
  let ?cs = "\<lparr>State = Developing_1, FlameDevelopment = ?fd,
      MaxFlameDevelopment =
        max (25 / 100
             + real (length (mConnectedSpringsBuffer s ! fst (mIgnitionCandidates s ! i)))
               * (625 / 10000)
             + 1 / 2 * GenerateRandomNormalizedReal e i) ?fd,
      Personality = GenerateRandomNormalizedReal e i\<rparr>"
  have "mCombustionStateBuffer (ignite_point e i s)
      = (mCombustionStateBuffer s)[fst (mIgnitionCandidates s ! i) := ?cs]"
    by (simp add: ignite_point_def Let_def notify_def)
  moreover have "State ?cs = Developing_1" by simp
  ultimately show ?thesis by blast
qed

lemma ignite_point_burning:
  "\<exists>pos. mBurningPoints (ignite_point e i s)
        = insert_at pos (fst (mIgnitionCandidates s ! i)) (mBurningPoints s)"
  by (rule exI[of _ "lower_bound (mBurningPoints s) (fst (mIgnitionCandidates s ! i))
        (\<lambda>p1 p2. mPlaneIdBuffer s ! p1 < mPlaneIdBuffer s ! p2)"])
     (simp add: ignite_point_def Let_def notify_def)

definition ignited_so_far ::
  "(ElementIndex \<times> real) list \<Rightarrow> nat \<Rightarrow> Points \<Rightarrow> Points \<Rightarrow> bool"
where
  "ignited_so_far C m s2 t \<longleftrightarrow>
     mIgnitionCandidates t = C
     \<and> mShipPointCount t = mShipPointCount s2
     \<and> length (mCombustionStateBuffer t) = length (mCombustionStateBuffer s2)
     \<and> (\<forall>p < length (mCombustionStateBuffer s2).
           GetState t p = (if p \<in> fst ` set (take m C) then Developing_1 else GetState s2 p))
     \<and> set (mBurningPoints t) = set (mBurningPoints s2) \<union> fst ` set (take m C)
     \<and> length (mBurningPoints t) = length (mBurningPoints s2) + m
     \<and> (distinct (mBurningPoints s2) \<and> (\<forall>c \<in> set C. fst c \<notin> set (mBurningPoints s2))
          \<longrightarrow> distinct (mBurningPoints t))"

lemma take_Suc_fst_image:
  "m < length C \<Longrightarrow> fst ` set (take (Suc m) C) = insert (fst (C ! m)) (fst ` set (take m C))"
  by (simp add: take_Suc_conv_app_nth)

lemma distinct_fst_not_in_take:
  assumes "distinct (map fst C)" "m < length C"
  shows "fst (C ! m) \<notin> fst ` set (take m C)"
proof
  assume "fst (C ! m) \<in> fst ` set (take m C)"
  then obtain j where j: "j < m" "fst (C ! j) = fst (C ! m)"
    using assms(2) by (auto simp: in_set_conv_nth)
  then have "map fst C ! j = map fst C ! m" "j < length (map fst C)" "m < length (map fst C)"
    using assms(2) by simp_all
  then have "j = m"
    using assms(1) nth_eq_iff_index_eq by blast
  with j(1) show False by simp
qed

lemma ignite_step:
  assumes d: "distinct (map fst C)"
    and v: "\<forall>c \<in> set C. fst c < length (mCombustionStateBuffer s2)"
    and m: "m < length C"
    and sf: "ignited_so_far C m s2 t"
  shows "ignited_so_far C (Suc m) s2 (ignite_point e m t)"
proof -
  let ?p = "fst (C ! m)"
  let ?t' = "ignite_point e m t"
  have cands: "mIgnitionCandidates t = C"
    using sf by (simp add: ignited_so_far_def)
  have plen: "?p < length (mCombustionStateBuffer s2)"
    using v m by simp
  have fresh: "?p \<notin> fst ` set (take m C)"
    using distinct_fst_not_in_take[OF d m] .
  obtain cs where cs: "State cs = Developing_1"
    "mCombustionStateBuffer ?t' = (mCombustionStateBuffer t)[?p := cs]"
    using ignite_point_state[of e m t] cands by auto
  obtain pos where pos: "mBurningPoints ?t' = insert_at pos ?p (mBurningPoints t)"
    using ignite_point_burning[of e m t] cands by auto
  have lent: "length (mCombustionStateBuffer t) = length (mCombustionStateBuffer s2)"
    using sf by (simp add: ignited_so_far_def)
  have st: "GetState ?t' q
      = (if q \<in> fst ` set (take (Suc m) C) then Developing_1 else GetState s2 q)"
    if q: "q < length (mCombustionStateBuffer s2)" for q
  proof (cases "q = ?p")
    case True
    then show ?thesis
      using cs plen lent m by (simp add: GetState_def take_Suc_fst_image)
  next
    case False
    have "GetState ?t' q = GetState t q"
      using False cs by (simp add: GetState_def)
    also have "\<dots> = (if q \<in> fst ` set (take m C) then Developing_1 else GetState s2 q)"
      using sf q by (simp add: ignited_so_far_def)
    finally show ?thesis
      using False m by (simp add: take_Suc_fst_image)
  qed
  have bset: "set (mBurningPoints ?t') = set (mBurningPoints s2) \<union> fst ` set (take (Suc m) C)"
    using sf m by (auto simp: pos set_insert_at take_Suc_fst_image ignited_so_far_def)
  have blen: "length (mBurningPoints ?t') = length (mBurningPoints s2) + Suc m"
    using sf by (simp add: pos length_insert_at ignited_so_far_def)
  have bdist: "distinct (mBurningPoints ?t')"
    if a: "distinct (mBurningPoints s2)" "\<forall>c \<in> set C. fst c \<notin> set (mBurningPoints s2)"
  proof -
    have "distinct (mBurningPoints t)"
      using sf a by (simp add: ignited_so_far_def)
    moreover have "?p \<notin> set (mBurningPoints s2)"
      using a(2) m by simp
    then have "?p \<notin> set (mBurningPoints t)"
      using sf fresh by (simp add: ignited_so_far_def)
    ultimately show ?thesis
      by (simp add: pos distinct_insert_at)
  qed
  show ?thesis
    unfolding ignited_so_far_def
    using st bset blen bdist cands lent cs(2) sf
    by (simp add: ignite_point_fields ignited_so_far_def)
qed

lemma ignite_fold:
  assumes d: "distinct (map fst C)"
    and v: "\<forall>c \<in> set C. fst c < length (mCombustionStateBuffer s2)"
    and c: "mIgnitionCandidates s2 = C"
  shows "m \<le> length C \<Longrightarrow> ignited_so_far C m s2 (fold (ignite_point e) [0 ..< m] s2)"
proof (induction m)
  case 0
  show ?case using c by (simp add: ignited_so_far_def)
next
  case (Suc m)
  then have "ignited_so_far C m s2 (fold (ignite_point e) [0 ..< m] s2)" and "m < length C"
    by simp_all
  then show ?case
    using ignite_step[OF d v] by simp
qed

subsection \<open>The whole low-frequency pass\<close>

definition ignition_count :: "CombustionEnv \<Rightarrow> GameParameters \<Rightarrow> Points \<Rightarrow> nat \<Rightarrow> nat" where
  "ignition_count e gp s candidateCount =
     min (min (4 + Choose e 6) (MaxBurningParticles gp - length (mBurningPoints s)))
         candidateCount"

lemma candidates_ok_permuted:
  assumes "candidates_ok gp s cands" "mset C = mset cands"
  shows "candidates_ok gp s C"
proof -
  have "mset (map fst C) = mset (map fst cands)"
    using assms(2) by (metis mset_map)
  then have "distinct (map fst C)"
    using assms(1) mset_eq_imp_distinct_iff[of "map fst C" "map fst cands"]
    by (simp add: candidates_ok_def)
  moreover have "set C = set cands"
    using assms(2) by (rule mset_eq_setD)
  ultimately show ?thesis
    using assms(1) by (simp add: candidates_ok_def)
qed

lemma lowfreq_pass:
  assumes ct: "nth_element_contract (nth_element e)"
    and st: "0 < stride"
    and wr: "mShipPointCount s + stride \<le> 4294967296"
    and len: "mShipPointCount s \<le> length (mCombustionStateBuffer s)"
  shows "\<exists>s1 s'. UpdateCombustionLowFrequency e offset stride dt gp s = Some s'
           \<and> scan_frame s s1
           \<and> candidates_ok gp s (mIgnitionCandidates s')
           \<and> ignited_so_far (mIgnitionCandidates s')
                (ignition_count e gp s (length (mIgnitionCandidates s')))
                (s1\<lparr>mIgnitionCandidates := mIgnitionCandidates s'\<rparr>) s'
           \<and> (\<forall>i j. i < ignition_count e gp s (length (mIgnitionCandidates s'))
                    \<and> ignition_count e gp s (length (mIgnitionCandidates s')) \<le> j
                    \<and> j < length (mIgnitionCandidates s')
                 \<longrightarrow> snd (mIgnitionCandidates s' ! j) \<le> snd (mIgnitionCandidates s' ! i))"
proof -
  let ?r = "90 / (CombustionSpeedAdjustment gp * dt)"
  obtain s1 where loop: "lowfreq_loop e gp ?r stride offset (s\<lparr>mIgnitionCandidates := []\<rparr>)
      = Some s1"
    and fr: "scan_frame s s1" and ok: "candidates_ok gp s (mIgnitionCandidates s1)"
    using lowfreq_scan[OF st wr len] by blast
  define K where "K = max_points_to_ignite e gp s1"
  define C where "C = nth_element e K (mIgnitionCandidates s1)"
  define s2 where "s2 = s1\<lparr>mIgnitionCandidates := C\<rparr>"
  define s' where "s' = fold (ignite_point e) [0 ..< K] s2"
  have upd: "UpdateCombustionLowFrequency e offset stride dt gp s = Some s'"
    using loop
    by (simp add: UpdateCombustionLowFrequency_def Let_def ignite_candidates_def
        K_def C_def s2_def s'_def)
  have Kle: "K \<le> length (mIgnitionCandidates s1)"
    by (simp add: K_def max_points_to_ignite_def)
  have perm: "mset C = mset (mIgnitionCandidates s1)"
    and top: "\<forall>i j. i < K \<and> K \<le> j \<and> j < length (mIgnitionCandidates s1)
        \<longrightarrow> snd (C ! j) \<le> snd (C ! i)"
    using ct Kle unfolding nth_element_contract_def C_def by blast+
  have lenC: "length C = length (mIgnitionCandidates s1)"
    using perm by (rule mset_eq_length)
  have okC: "candidates_ok gp s C"
    using candidates_ok_permuted[OF ok perm] .
  have lens: "length (mCombustionStateBuffer s2) = length (mCombustionStateBuffer s)"
    "mBurningPoints s2 = mBurningPoints s"
    using fr by (simp_all add: s2_def scan_frame_def)
  have valid: "\<forall>c \<in> set C. fst c < length (mCombustionStateBuffer s2)"
    using okC len lens by (auto simp: candidates_ok_def)
  have dist: "distinct (map fst C)"
    using okC by (simp add: candidates_ok_def)
  have isf: "ignited_so_far C K s2 s'"
    unfolding s'_def
    using ignite_fold[OF dist valid, of K e] Kle lenC by (simp add: s2_def)
  have cs': "mIgnitionCandidates s' = C"
    using isf by (simp add: ignited_so_far_def)
  have Keq: "K = ignition_count e gp s (length C)"
    using lens(2) lenC
    by (simp add: K_def max_points_to_ignite_def ignition_count_def s2_def)
  have Keq': "ignition_count e gp s (length C) = K"
    using Keq by simp
  have top': "\<forall>i j. i < K \<and> K \<le> j \<and> j < length C \<longrightarrow> snd (C ! j) \<le> snd (C ! i)"
    using top lenC by simp
  have isf': "ignited_so_far C K (s1\<lparr>mIgnitionCandidates := C\<rparr>) s'"
    using isf by (simp add: s2_def)
  show ?thesis
    apply (rule exI[of _ s1], rule exI[of _ s'])
    using upd fr okC isf' top'
    by (simp add: cs' Keq')
qed

text \<open>What a low-frequency pass ignites.\<close>

lemma lowfreq_pass_summary:
  assumes "nth_element_contract (nth_element e)"
    and "0 < stride"
    and "mShipPointCount s + stride \<le> 4294967296"
    and "mShipPointCount s \<le> length (mCombustionStateBuffer s)"
  shows "\<exists>s'. UpdateCombustionLowFrequency e offset stride dt gp s = Some s'
          \<and> (let C = mIgnitionCandidates s';
                  K = min (min (4 + Choose e 6)
                               (MaxBurningParticles gp - length (mBurningPoints s)))
                          (length C);
                  ignited = {p. p < length (mCombustionStateBuffer s)
                                \<and> GetState s p = NotBurning
                                \<and> GetState s' p = Developing_1}
              in ignited = fst ` set (take K C)
                 \<and> card ignited = K
                 \<and> (\<forall>c \<in> set C. GetState s (fst c) = NotBurning
                                  \<and> snd c = ignition_key gp s (fst c))
                 \<and> (\<forall>a \<in> set (take K C). \<forall>b \<in> set (drop K C). snd b \<le> snd a))"
proof -
  obtain s1 s' where upd: "UpdateCombustionLowFrequency e offset stride dt gp s = Some s'"
    and fr: "scan_frame s s1"
    and ok: "candidates_ok gp s (mIgnitionCandidates s')"
    and isf: "ignited_so_far (mIgnitionCandidates s')
                (ignition_count e gp s (length (mIgnitionCandidates s')))
                (s1\<lparr>mIgnitionCandidates := mIgnitionCandidates s'\<rparr>) s'"
    and top: "\<forall>i j. i < ignition_count e gp s (length (mIgnitionCandidates s'))
                    \<and> ignition_count e gp s (length (mIgnitionCandidates s')) \<le> j
                    \<and> j < length (mIgnitionCandidates s')
                 \<longrightarrow> snd (mIgnitionCandidates s' ! j) \<le> snd (mIgnitionCandidates s' ! i)"
    using lowfreq_pass[OF assms] by blast
  define C where "C = mIgnitionCandidates s'"
  define K where "K = ignition_count e gp s (length C)"
  define ignited where "ignited = {p. p < length (mCombustionStateBuffer s)
      \<and> GetState s p = NotBurning \<and> GetState s' p = Developing_1}"
  have Kle: "K \<le> length C" by (simp add: K_def ignition_count_def)
  have len1: "length (mCombustionStateBuffer s1) = length (mCombustionStateBuffer s)"
    using fr by (simp add: scan_frame_def)
  have st': "GetState s' p = (if p \<in> fst ` set (take K C) then Developing_1 else GetState s1 p)"
    if "p < length (mCombustionStateBuffer s)" for p
    using isf that len1 by (simp add: ignited_so_far_def C_def K_def GetState_def)
  have eq: "ignited = fst ` set (take K C)"
  proof (intro set_eqI iffI)
    fix p assume "p \<in> ignited"
    then have p: "p < length (mCombustionStateBuffer s)" "GetState s p = NotBurning"
      "GetState s' p = Developing_1"
      by (simp_all add: ignited_def)
    have "GetState s1 p = NotBurning"
      using fr p(1,2) by (auto simp: scan_frame_def)
    then show "p \<in> fst ` set (take K C)"
      using st'[OF p(1)] p(3) by (auto split: if_splits)
  next
    fix p assume a: "p \<in> fst ` set (take K C)"
    then obtain c where c: "c \<in> set C" "p = fst c"
      using in_set_takeD by fastforce
    then have "p < length (mCombustionStateBuffer s)" "GetState s p = NotBurning"
      using ok assms(4) by (auto simp: candidates_ok_def C_def)
    then show "p \<in> ignited"
      using st' a by (simp add: ignited_def)
  qed
  have "distinct (map fst (take K C))"
    using ok by (simp add: candidates_ok_def C_def take_map[symmetric])
  then have "card (set (map fst (take K C))) = length (map fst (take K C))"
    by (rule distinct_card)
  then have card: "card ignited = K"
    using Kle by (simp add: eq)
  have keys: "\<forall>c \<in> set C. GetState s (fst c) = NotBurning \<and> snd c = ignition_key gp s (fst c)"
    using ok by (simp add: candidates_ok_def C_def)
  have order: "snd b \<le> snd a" if a: "a \<in> set (take K C)" and b: "b \<in> set (drop K C)" for a b
  proof -
    obtain i where i: "i < K" "a = C ! i"
      using a Kle by (auto simp: in_set_conv_nth)
    obtain j where j: "j < length C - K" "b = C ! (K + j)"
      using b Kle by (auto simp: in_set_conv_nth)
    have "snd (C ! (K + j)) \<le> snd (C ! i)"
      using top i(1) j(1) by (simp add: C_def K_def)
    with i j show ?thesis by simp
  qed
  show ?thesis
    apply (rule exI[of _ s'])
    using upd eq card keys order
    by (simp add: Let_def C_def K_def ignition_count_def ignited_def)
qed

text \<open>
  Claim C2. Given a routine \<open>nth_element\<close> that keeps its guarantee, a positive stride
  that does not wrap the 32-bit cursor and a combustion state buffer covering every ship
  point, a low-frequency pass returns, and with \<open>C\<close> the candidate list it leaves and
  \<open>K\<close> the minimum of 4 plus the value drawn by \<open>Choose(6)\<close>, of the maximum number of
  burning particles minus the number of entries of the burning list at the start (zero
  if that is negative) and of the number of candidates: the points that go from not
  burning to the first developing state are exactly the points of the first \<open>K\<close>
  candidates, and there are \<open>K\<close> of them; every candidate was not burning and carries
  the key (temperature minus effective ignition temperature) divided by the effective
  ignition temperature; and no candidate outside the first \<open>K\<close> has a greater key than
  one of the first \<open>K\<close>.
\<close>

theorem lowfreq_ignites_top_candidates:
  assumes "nth_element_contract (nth_element e)"
    and "0 < stride"
    and "mShipPointCount s + stride \<le> 4294967296"
    and "mShipPointCount s \<le> length (mCombustionStateBuffer s)"
  shows "\<exists>s'. UpdateCombustionLowFrequency e offset stride dt gp s = Some s'
          \<and> (let C = mIgnitionCandidates s';
                  K = min (min (4 + Choose e 6)
                               (MaxBurningParticles gp - length (mBurningPoints s)))
                          (length C);
                  ignited = {p. p < length (mCombustionStateBuffer s)
                                \<and> GetState s p = NotBurning
                                \<and> GetState s' p = Developing_1}
              in ignited = fst ` set (take K C)
                 \<and> card ignited = K
                 \<and> (\<forall>c \<in> set C. GetState s (fst c) = NotBurning
                                  \<and> snd c = ignition_key gp s (fst c))
                 \<and> (\<forall>a \<in> set (take K C). \<forall>b \<in> set (drop K C). snd b \<le> snd a))"
  using lowfreq_pass_summary[OF assms] .


subsection \<open>One step of the high-frequency pass\<close>

text \<open>
  What visiting point \<open>p\<close> may change: the combustion state of \<open>p\<close> itself, the
  temperatures, and the burning list, from which at most \<open>p\<close> is removed.
\<close>

definition visit_frame :: "ElementIndex \<Rightarrow> Points \<Rightarrow> Points \<Rightarrow> bool" where
  "visit_frame p s s' \<longleftrightarrow>
     length (mCombustionStateBuffer s') = length (mCombustionStateBuffer s)
     \<and> mShipPointCount s' = mShipPointCount s
     \<and> mPositionBuffer s' = mPositionBuffer s
     \<and> mWaterBuffer s' = mWaterBuffer s
     \<and> (\<forall>q. q \<noteq> p \<longrightarrow> mCombustionStateBuffer s' ! q = mCombustionStateBuffer s ! q)"

definition visit_outcome :: "ElementIndex \<Rightarrow> Points \<Rightarrow> Points \<Rightarrow> bool" where
  "visit_outcome p s s' \<longleftrightarrow>
     (mBurningPoints s' = mBurningPoints s
        \<and> (GetState s' p = NotBurning \<longleftrightarrow> GetState s p = NotBurning))
     \<or> (mBurningPoints s' = remove1 p (mBurningPoints s)
         \<and> GetState s' p = NotBurning
         \<and> (GetState s p = Extinguishing_Consumed \<or> GetState s p = Extinguishing_Smothered)
         \<and> FlameDevelopment (mCombustionStateBuffer s' ! p) \<le> 2 / 100)"

lemma visit_frame_refl: "visit_frame p s s"
  by (simp add: visit_frame_def)

lemma visit_frame_trans: "visit_frame p s s1 \<Longrightarrow> visit_frame p s1 s2 \<Longrightarrow> visit_frame p s s2"
  by (simp add: visit_frame_def)

lemma set_State_frame: "visit_frame p s (set_State p st s)"
  by (simp add: visit_frame_def set_State_def)

lemma set_FlameDevelopment_frame: "visit_frame p s (set_FlameDevelopment p d s)"
  by (simp add: visit_frame_def set_FlameDevelopment_def)

lemma set_State_read:
  assumes "p < length (mCombustionStateBuffer s)"
  shows "GetState (set_State p st s) p = st"
    and "FlameDevelopment (mCombustionStateBuffer (set_State p st s) ! p)
           = FlameDevelopment (mCombustionStateBuffer s ! p)"
    and "MaxFlameDevelopment (mCombustionStateBuffer (set_State p st s) ! p)
           = MaxFlameDevelopment (mCombustionStateBuffer s ! p)"
    and "mBurningPoints (set_State p st s) = mBurningPoints s"
    and "length (mCombustionStateBuffer (set_State p st s)) = length (mCombustionStateBuffer s)"
  using assms by (simp_all add: set_State_def GetState_def)

lemma set_FlameDevelopment_read:
  assumes "p < length (mCombustionStateBuffer s)"
  shows "GetState (set_FlameDevelopment p d s) p = GetState s p"
    and "FlameDevelopment (mCombustionStateBuffer (set_FlameDevelopment p d s) ! p) = d"
    and "MaxFlameDevelopment (mCombustionStateBuffer (set_FlameDevelopment p d s) ! p)
           = MaxFlameDevelopment (mCombustionStateBuffer s ! p)"
    and "mBurningPoints (set_FlameDevelopment p d s) = mBurningPoints s"
    and "length (mCombustionStateBuffer (set_FlameDevelopment p d s))
           = length (mCombustionStateBuffer s)"
  using assms by (simp_all add: set_FlameDevelopment_def GetState_def)

lemma stop_burning_if_done_effect:
  assumes p: "p < length (mCombustionStateBuffer s)"
    and ext: "GetState s p = Extinguishing_Consumed \<or> GetState s p = Extinguishing_Smothered"
  shows "visit_frame p s (stop_burning_if_done p s) \<and> visit_outcome p s (stop_burning_if_done p s)"
proof (cases "FlameDevelopment (mCombustionStateBuffer s ! p) \<le> 2 / 100")
  case True
  then have eq: "stop_burning_if_done p s
      = (set_State p NotBurning s)\<lparr>mBurningPoints := remove1 p (mBurningPoints s)\<rparr>"
    by (simp add: stop_burning_if_done_def Let_def set_State_def)
  have "visit_frame p s (stop_burning_if_done p s)"
    using set_State_frame[of p s NotBurning] by (simp add: eq visit_frame_def)
  moreover have "visit_outcome p s (stop_burning_if_done p s)"
    using ext True set_State_read[OF p, of NotBurning]
    by (simp add: visit_outcome_def eq GetState_def)
  ultimately show ?thesis by simp
next
  case False
  then have "stop_burning_if_done p s = s"
    by (simp add: stop_burning_if_done_def)
  then show ?thesis
    using ext by (simp add: visit_frame_refl visit_outcome_def)
qed

lemma develop_point_cases:
  "GetState s p = NotBurning \<and> develop_point p s = s
   \<or> GetState s p = Burning \<and> develop_point p s = s
   \<or> GetState s p = Developing_1
       \<and> (\<exists>d. develop_point p s = set_FlameDevelopment p d s
               \<or> develop_point p s = set_State p Developing_2 (set_FlameDevelopment p d s))
   \<or> GetState s p = Developing_2
       \<and> (\<exists>d d'. develop_point p s = set_FlameDevelopment p d s
               \<or> develop_point p s
                   = set_FlameDevelopment p d' (set_State p Burning (set_FlameDevelopment p d s)))
   \<or> (GetState s p = Extinguishing_Consumed \<or> GetState s p = Extinguishing_Smothered)
       \<and> (\<exists>d. develop_point p s = stop_burning_if_done p (set_FlameDevelopment p d s))"
proof (cases "GetState s p")
  case NotBurning
  then show ?thesis by (simp add: develop_point_def Let_def GetState_def)
next
  case Developing_1
  then show ?thesis by (simp add: develop_point_def Let_def GetState_def, blast)
next
  case Developing_2
  then show ?thesis by (simp add: develop_point_def Let_def GetState_def, blast)
next
  case Burning
  then show ?thesis by (simp add: develop_point_def Let_def GetState_def)
next
  case Extinguishing_Consumed
  then show ?thesis by (simp add: develop_point_def Let_def GetState_def, blast)
next
  case Extinguishing_Smothered
  then show ?thesis by (simp add: develop_point_def Let_def GetState_def, blast)
qed

lemma develop_point_effect:
  assumes p: "p < length (mCombustionStateBuffer s)"
  shows "visit_frame p s (develop_point p s) \<and> visit_outcome p s (develop_point p s)"
proof -
  have p1: "p < length (mCombustionStateBuffer (set_FlameDevelopment p d s))" for d
    using set_FlameDevelopment_read(5)[OF p] p by simp
  have p2: "p < length (mCombustionStateBuffer (set_State p st (set_FlameDevelopment p d s)))"
    for d st
    using set_State_read(5)[OF p1] p1 by simp
  consider
    (same) "develop_point p s = s"
    | (dev) d where "GetState s p \<noteq> NotBurning" "develop_point p s = set_FlameDevelopment p d s"
    | (dev1) d where "GetState s p \<noteq> NotBurning"
        "develop_point p s = set_State p Developing_2 (set_FlameDevelopment p d s)"
    | (dev2) d d' where "GetState s p \<noteq> NotBurning"
        "develop_point p s
           = set_FlameDevelopment p d' (set_State p Burning (set_FlameDevelopment p d s))"
    | (ext) d where
        "GetState s p = Extinguishing_Consumed \<or> GetState s p = Extinguishing_Smothered"
        "develop_point p s = stop_burning_if_done p (set_FlameDevelopment p d s)"
    using develop_point_cases[of s p] by fastforce
  then show ?thesis
  proof cases
    case same
    then show ?thesis by (simp add: visit_frame_refl visit_outcome_def)
  next
    case dev
    then show ?thesis
      using set_FlameDevelopment_read[OF p] set_FlameDevelopment_frame[of p s]
      by (simp add: visit_outcome_def)
  next
    case dev1
    have "visit_frame p s (develop_point p s)"
      unfolding dev1(2)
      using visit_frame_trans[OF set_FlameDevelopment_frame set_State_frame] .
    moreover have "visit_outcome p s (develop_point p s)"
      using dev1(1) set_State_read[OF p1, of Developing_2] set_FlameDevelopment_read[OF p]
      by (simp add: dev1(2) visit_outcome_def)
    ultimately show ?thesis by simp
  next
    case dev2
    let ?s3 = "set_FlameDevelopment p d' (set_State p Burning (set_FlameDevelopment p d s))"
    have "visit_frame p s (develop_point p s)"
      unfolding dev2(2)
      using visit_frame_trans[OF visit_frame_trans[OF set_FlameDevelopment_frame set_State_frame]
          set_FlameDevelopment_frame] .
    moreover have "GetState ?s3 p = Burning" "mBurningPoints ?s3 = mBurningPoints s"
      using set_FlameDevelopment_read(1,4)[OF p2] set_State_read(1,4)[OF p1]
        set_FlameDevelopment_read(4)[OF p]
      by simp_all
    then have "visit_outcome p s (develop_point p s)"
      using dev2(1) by (simp add: dev2(2) visit_outcome_def)
    ultimately show ?thesis by simp
  next
    case ext
    let ?s1 = "set_FlameDevelopment p d s"
    have st: "GetState ?s1 p = GetState s p" "mBurningPoints ?s1 = mBurningPoints s"
      using set_FlameDevelopment_read(1,4)[OF p] by simp_all
    have "visit_frame p ?s1 (stop_burning_if_done p ?s1)"
      "visit_outcome p ?s1 (stop_burning_if_done p ?s1)"
      using stop_burning_if_done_effect[OF p1] st ext(1) by simp_all
    then show ?thesis
      unfolding ext(2)
      using visit_frame_trans[OF set_FlameDevelopment_frame] st ext(1)
      by (auto simp: visit_outcome_def)
  qed
qed

lemma heat_fold_only_temperature:
  "\<exists>T. fold (heat_neighbour e gp h p) (css :: ConnectedSpring list) t
         = t\<lparr>mTemperatureBuffer := T\<rparr>"
proof (induction css arbitrary: t)
  case Nil
  show ?case by (rule exI[of _ "mTemperatureBuffer t"]) simp
next
  case (Cons cs css)
  obtain T where T: "fold (heat_neighbour e gp h p) css (heat_neighbour e gp h p cs t)
      = (heat_neighbour e gp h p cs t)\<lparr>mTemperatureBuffer := T\<rparr>"
    using Cons.IH by blast
  have "(heat_neighbour e gp h p cs t)\<lparr>mTemperatureBuffer := T\<rparr> = t\<lparr>mTemperatureBuffer := T\<rparr>"
    by (simp add: heat_neighbour_def Let_def)
  with T show ?case
    by (intro exI[of _ T]) simp
qed

lemma generate_heat_only_temperature:
  "\<exists>T. generate_heat e gp h p s = s\<lparr>mTemperatureBuffer := T\<rparr>"
proof -
  let ?s1 = "s\<lparr>mTemperatureBuffer := (mTemperatureBuffer s)
                   [p := mMaterialIgnitionTemperatureBuffer s ! p
                         * IgnitionTemperatureAdjustment gp * (11 / 10)]\<rparr>"
  obtain T where "fold (heat_neighbour e gp h p) (GetConnectedSprings ?s1 p) ?s1
      = ?s1\<lparr>mTemperatureBuffer := T\<rparr>"
    using heat_fold_only_temperature by blast
  then show ?thesis
    by (intro exI[of _ T]) (simp add: generate_heat_def Let_def)
qed

text \<open>
  The outcome of visiting \<open>p\<close> in the high-frequency pass: \<open>p\<close> stays in the burning
  list and remains burning or not as it was, or it is removed, its state becomes not
  burning, its flame development is at most 0.02, and it was extinguishing, or started to
  extinguish by smothering in this very visit.
\<close>

definition highfreq_outcome ::
  "CombustionEnv \<Rightarrow> GameParameters \<Rightarrow> ElementIndex \<Rightarrow> Points \<Rightarrow> Points \<Rightarrow> bool"
where
  "highfreq_outcome e gp p s s' \<longleftrightarrow>
     (mBurningPoints s' = mBurningPoints s
        \<and> (GetState s' p = NotBurning \<longleftrightarrow> GetState s p = NotBurning))
     \<or> (mBurningPoints s' = remove1 p (mBurningPoints s)
         \<and> GetState s' p = NotBurning
         \<and> GetState s p \<noteq> NotBurning
         \<and> FlameDevelopment (mCombustionStateBuffer s' ! p) \<le> 2 / 100
         \<and> (GetState s p = Extinguishing_Consumed \<or> GetState s p = Extinguishing_Smothered
             \<or> IsUnderwater e (GetPosition s p)
             \<or> GetWater s p > SmotheringWaterHighWatermark gp))"

lemma highfreq_point_effect:
  assumes p: "p < length (mCombustionStateBuffer s)"
  shows "visit_frame p s (highfreq_point e gp h p s)
         \<and> highfreq_outcome e gp p s (highfreq_point e gp h p s)"
proof -
  define smother where "smother \<longleftrightarrow>
      (GetState s p = Developing_1 \<or> GetState s p = Developing_2
       \<or> GetState s p = Burning \<or> GetState s p = Extinguishing_Consumed)
      \<and> (IsUnderwater e (GetPosition s p) \<or> GetWater s p > SmotheringWaterHighWatermark gp)"
  define s1 where "s1 = (if smother then SmotherCombustion p s
      else if GetState s p = Burning then generate_heat e gp h p s else s)"
  have hp: "highfreq_point e gp h p s = develop_point p s1"
    by (simp add: highfreq_point_def Let_def s1_def smother_def)
  have pre: "visit_frame p s s1 \<and> mBurningPoints s1 = mBurningPoints s
      \<and> (if smother then GetState s1 p = Extinguishing_Smothered
          else GetState s1 p = GetState s p)"
  proof (cases smother)
    case True
    then show ?thesis
      using set_State_frame[of p s Extinguishing_Smothered]
        set_State_read[OF p, of Extinguishing_Smothered]
      by (simp add: s1_def SmotherCombustion_def)
  next
    case False
    obtain T where T: "generate_heat e gp h p s = s\<lparr>mTemperatureBuffer := T\<rparr>"
      using generate_heat_only_temperature by blast
    have "s1 = s \<or> s1 = s\<lparr>mTemperatureBuffer := T\<rparr>"
      using False T by (simp add: s1_def)
    then show ?thesis
      using False by (auto simp: visit_frame_def GetState_def)
  qed
  have p1: "p < length (mCombustionStateBuffer s1)"
    using pre p by (simp add: visit_frame_def)
  have post: "visit_frame p s1 (develop_point p s1)" "visit_outcome p s1 (develop_point p s1)"
    using develop_point_effect[OF p1] by simp_all
  have "visit_frame p s (develop_point p s1)"
    using visit_frame_trans[of p s s1] pre post(1) by simp
  moreover have "highfreq_outcome e gp p s (develop_point p s1)"
  proof (cases smother)
    case True
    then have "GetState s p \<noteq> NotBurning"
      "IsUnderwater e (GetPosition s p) \<or> GetWater s p > SmotheringWaterHighWatermark gp"
      by (auto simp: smother_def)
    moreover have "GetState s1 p = Extinguishing_Smothered" "mBurningPoints s1 = mBurningPoints s"
      using pre True by simp_all
    ultimately show ?thesis
      using post(2) by (auto simp: visit_outcome_def highfreq_outcome_def)
  next
    case False
    then have "GetState s1 p = GetState s p" "mBurningPoints s1 = mBurningPoints s"
      using pre by simp_all
    then show ?thesis
      using post(2) by (auto simp: visit_outcome_def highfreq_outcome_def)
  qed
  ultimately show ?thesis by (simp add: hp)
qed

subsection \<open>The combustion invariant\<close>

text \<open>
  The burning list has no duplicates, holds exactly the points whose state is other than
  not burning, and has at most \<open>maxBurning\<close> entries; the combustion state buffer covers
  every ship point.
\<close>

definition combustion_inv :: "nat \<Rightarrow> Points \<Rightarrow> bool" where
  "combustion_inv maxBurning s \<longleftrightarrow>
     mShipPointCount s \<le> length (mCombustionStateBuffer s)
     \<and> distinct (mBurningPoints s)
     \<and> (\<forall>p. p \<in> set (mBurningPoints s)
             \<longleftrightarrow> p < length (mCombustionStateBuffer s) \<and> GetState s p \<noteq> NotBurning)
     \<and> length (mBurningPoints s) \<le> maxBurning"

lemma GetState_frame:
  "visit_frame p s s' \<Longrightarrow> q \<noteq> p \<Longrightarrow> GetState s' q = GetState s q"
  by (simp add: visit_frame_def GetState_def)

lemma highfreq_point_inv:
  assumes inv: "combustion_inv m s" and p: "p < length (mCombustionStateBuffer s)"
  shows "combustion_inv m (highfreq_point e gp h p s)"
proof -
  let ?s' = "highfreq_point e gp h p s"
  have fr: "visit_frame p s ?s'" and out: "highfreq_outcome e gp p s ?s'"
    using highfreq_point_effect[OF p] by simp_all
  have len: "length (mCombustionStateBuffer ?s') = length (mCombustionStateBuffer s)"
    "mShipPointCount ?s' = mShipPointCount s"
    using fr by (simp_all add: visit_frame_def)
  have d: "distinct (mBurningPoints s)"
    and mem: "\<And>q. q \<in> set (mBurningPoints s)
        \<longleftrightarrow> q < length (mCombustionStateBuffer s) \<and> GetState s q \<noteq> NotBurning"
    and cap: "length (mBurningPoints s) \<le> m"
    using inv by (simp_all add: combustion_inv_def)
  from out consider
    (stay) "mBurningPoints ?s' = mBurningPoints s"
      "GetState ?s' p = NotBurning \<longleftrightarrow> GetState s p = NotBurning"
    | (leave) "mBurningPoints ?s' = remove1 p (mBurningPoints s)"
        "GetState ?s' p = NotBurning" "GetState s p \<noteq> NotBurning"
    by (auto simp: highfreq_outcome_def)
  then show ?thesis
  proof cases
    case stay
    have "q \<in> set (mBurningPoints ?s')
        \<longleftrightarrow> q < length (mCombustionStateBuffer ?s') \<and> GetState ?s' q \<noteq> NotBurning" for q
      using mem[of q] stay GetState_frame[OF fr, of q] len by (cases "q = p") auto
    then show ?thesis
      using inv len stay(1) by (simp add: combustion_inv_def)
  next
    case leave
    have s: "set (mBurningPoints ?s') = set (mBurningPoints s) - {p}"
      using d by (simp add: leave(1))
    have "q \<in> set (mBurningPoints ?s')
        \<longleftrightarrow> q < length (mCombustionStateBuffer ?s') \<and> GetState ?s' q \<noteq> NotBurning" for q
      using mem[of q] leave(2) GetState_frame[OF fr, of q] len s by (cases "q = p") auto
    moreover have "distinct (mBurningPoints ?s')"
      using d by (simp add: leave(1))
    moreover have "length (mBurningPoints ?s') \<le> m"
      using cap by (auto simp: leave(1) length_remove1)
    ultimately show ?thesis
      using inv len by (simp add: combustion_inv_def)
  qed
qed

lemma highfreq_point_removes_listed:
  assumes inv: "combustion_inv m s" and p: "p < length (mCombustionStateBuffer s)"
    and after: "GetState (highfreq_point e gp h p s) p = NotBurning"
    and before: "GetState s p \<noteq> NotBurning"
  shows "p \<in> set (mBurningPoints s)"
    and "mBurningPoints (highfreq_point e gp h p s) = remove1 p (mBurningPoints s)"
proof -
  show "p \<in> set (mBurningPoints s)"
    using inv p before by (simp add: combustion_inv_def)
  have "highfreq_outcome e gp p s (highfreq_point e gp h p s)"
    using highfreq_point_effect[OF p] by simp
  then show "mBurningPoints (highfreq_point e gp h p s) = remove1 p (mBurningPoints s)"
    using after before by (auto simp: highfreq_outcome_def)
qed

lemma UpdateCombustionLowFrequency_inv:
  assumes inv: "combustion_inv m s"
    and cap: "MaxBurningParticles gp \<le> m"
    and ct: "nth_element_contract (nth_element e)"
    and st: "0 < stride"
    and wr: "mShipPointCount s + stride \<le> 4294967296"
    and upd: "UpdateCombustionLowFrequency e offset stride dt gp s = Some s'"
  shows "combustion_inv m s'"
    and "length (mBurningPoints s')
           = length (mBurningPoints s)
             + ignition_count e gp s (length (mIgnitionCandidates s'))"
    and "set (mBurningPoints s) \<subseteq> set (mBurningPoints s')"
proof -
  have len: "mShipPointCount s \<le> length (mCombustionStateBuffer s)"
    and d: "distinct (mBurningPoints s)"
    and mem: "\<And>q. q \<in> set (mBurningPoints s)
        \<longleftrightarrow> q < length (mCombustionStateBuffer s) \<and> GetState s q \<noteq> NotBurning"
    and le: "length (mBurningPoints s) \<le> m"
    using inv by (simp_all add: combustion_inv_def)
  define C where "C = mIgnitionCandidates s'"
  define K where "K = ignition_count e gp s (length C)"
  define I where "I = fst ` set (take K C)"
  obtain s1 where fr: "scan_frame s s1"
    and ok: "candidates_ok gp s C"
    and isf: "ignited_so_far C K (s1\<lparr>mIgnitionCandidates := C\<rparr>) s'"
    using lowfreq_pass[OF ct st wr len, of offset dt gp] upd
    by (auto simp: C_def K_def)
  have l1: "length (mCombustionStateBuffer s1) = length (mCombustionStateBuffer s)"
    "mBurningPoints s1 = mBurningPoints s" "mShipPointCount s1 = mShipPointCount s"
    using fr by (simp_all add: scan_frame_def)
  have l': "length (mCombustionStateBuffer s') = length (mCombustionStateBuffer s)"
    "mShipPointCount s' = mShipPointCount s"
    using isf l1 by (simp_all add: ignited_so_far_def)
  have st': "GetState s' p = (if p \<in> I then Developing_1 else GetState s1 p)"
    if "p < length (mCombustionStateBuffer s)" for p
    using isf that l1 by (simp add: ignited_so_far_def I_def GetState_def)
  have bset: "set (mBurningPoints s') = set (mBurningPoints s) \<union> I"
    using isf l1 by (simp add: ignited_so_far_def I_def)
  have blen: "length (mBurningPoints s') = length (mBurningPoints s) + K"
    using isf l1 by (simp add: ignited_so_far_def)
  have cand: "fst c < length (mCombustionStateBuffer s) \<and> GetState s (fst c) = NotBurning"
    if "c \<in> set C" for c
    using ok that len by (auto simp: candidates_ok_def)
  have notin: "\<forall>c \<in> set C. fst c \<notin> set (mBurningPoints s)"
    using cand mem by blast
  have bdist: "distinct (mBurningPoints s')"
    using isf l1 d notin by (simp add: ignited_so_far_def)
  have Ivalid: "q < length (mCombustionStateBuffer s)" if qI: "q \<in> I" for q
  proof -
    have "\<exists>c. c \<in> set C \<and> q = fst c"
      using qI in_set_takeD by (fastforce simp: I_def)
    then obtain c where "c \<in> set C" "q = fst c"
      by blast
    then show ?thesis using cand by simp
  qed
  have nb1: "GetState s1 q \<noteq> NotBurning \<longleftrightarrow> GetState s q \<noteq> NotBurning"
    if "q < length (mCombustionStateBuffer s)" for q
    using fr that by (auto simp: scan_frame_def)
  have mem': "q \<in> set (mBurningPoints s')
      \<longleftrightarrow> q < length (mCombustionStateBuffer s') \<and> GetState s' q \<noteq> NotBurning" for q
  proof (cases "q \<in> I")
    case True
    then show ?thesis
      using Ivalid[OF True] st'[of q] bset l' by simp
  next
    case False
    show ?thesis
    proof (cases "q < length (mCombustionStateBuffer s)")
      case True
      then show ?thesis
        using False st'[OF True] nb1[OF True] mem[of q] bset l' by simp
    next
      case nlt: False
      then show ?thesis
        using False mem[of q] bset l' by simp
    qed
  qed
  have Kle: "K \<le> m - length (mBurningPoints s)"
    using cap by (simp add: K_def ignition_count_def)
  have "length (mBurningPoints s') \<le> m"
    using blen Kle le by simp
  then show "combustion_inv m s'"
    using len l' bdist mem' by (simp add: combustion_inv_def)
  show "length (mBurningPoints s')
           = length (mBurningPoints s)
             + ignition_count e gp s (length (mIgnitionCandidates s'))"
    using blen by (simp add: K_def C_def)
  show "set (mBurningPoints s) \<subseteq> set (mBurningPoints s')"
    using bset by auto
qed

text \<open>The points that leave the burning list during a high-frequency pass.\<close>

definition left_extinguished ::
  "CombustionEnv \<Rightarrow> GameParameters \<Rightarrow> Points \<Rightarrow> Points \<Rightarrow> ElementIndex \<Rightarrow> bool"
where
  "left_extinguished e gp s s' p \<longleftrightarrow>
     GetState s' p = NotBurning
     \<and> FlameDevelopment (mCombustionStateBuffer s' ! p) \<le> 2 / 100
     \<and> GetState s p \<noteq> NotBurning
     \<and> (GetState s p = Extinguishing_Consumed \<or> GetState s p = Extinguishing_Smothered
         \<or> IsUnderwater e (GetPosition s p)
         \<or> GetWater s p > SmotheringWaterHighWatermark gp)"

definition extinguishing :: "Points \<Rightarrow> ElementIndex \<Rightarrow> bool" where
  "extinguishing s p \<longleftrightarrow>
     GetState s p = Extinguishing_Consumed \<or> GetState s p = Extinguishing_Smothered"

definition smothering :: "CombustionEnv \<Rightarrow> GameParameters \<Rightarrow> Points \<Rightarrow> ElementIndex \<Rightarrow> bool" where
  "smothering e gp s p \<longleftrightarrow>
     IsUnderwater e (GetPosition s p) \<or> GetWater s p > SmotheringWaterHighWatermark gp"

lemma highfreq_point_not_burning:
  "GetState s p = NotBurning \<Longrightarrow> highfreq_point e gp h p s = s"
  by (simp add: highfreq_point_def develop_point_def Let_def GetState_def)

lemma develop_point_extinguishing:
  assumes p: "p < length (mCombustionStateBuffer s)"
    and x: "extinguishing (develop_point p s) p"
  shows "extinguishing s p"
proof -
  have p1: "p < length (mCombustionStateBuffer (set_FlameDevelopment p d s))" for d
    using set_FlameDevelopment_read(5)[OF p] p by simp
  have p2: "p < length (mCombustionStateBuffer (set_State p st (set_FlameDevelopment p d s)))"
    for d st
    using set_State_read(5)[OF p1] p1 by simp
  consider
    (same) "develop_point p s = s"
    | (dev) d where "GetState s p = Developing_1 \<or> GetState s p = Developing_2"
        "develop_point p s = set_FlameDevelopment p d s"
    | (dev1) d where
        "develop_point p s = set_State p Developing_2 (set_FlameDevelopment p d s)"
    | (dev2) d d' where
        "develop_point p s
           = set_FlameDevelopment p d' (set_State p Burning (set_FlameDevelopment p d s))"
    | (ext) "GetState s p = Extinguishing_Consumed \<or> GetState s p = Extinguishing_Smothered"
    using develop_point_cases[of s p] by fastforce
  then show ?thesis
  proof cases
    case same
    then show ?thesis using x by simp
  next
    case dev
    have "GetState (develop_point p s) p = GetState s p"
      using set_FlameDevelopment_read(1)[OF p] by (simp add: dev(2))
    then show ?thesis
      using x dev(1) by (auto simp: extinguishing_def)
  next
    case dev1
    have "GetState (develop_point p s) p = Developing_2"
      using set_State_read(1)[OF p1] by (simp add: dev1)
    then show ?thesis
      using x by (simp add: extinguishing_def)
  next
    case dev2
    have "GetState (develop_point p s) p = Burning"
      using set_FlameDevelopment_read(1)[OF p2] set_State_read(1)[OF p1] by (simp add: dev2)
    then show ?thesis
      using x by (simp add: extinguishing_def)
  next
    case ext
    then show ?thesis by (simp add: extinguishing_def)
  qed
qed

text \<open>
  A point that is extinguishing after its visit was extinguishing before it, or was
  smothered in it.
\<close>

lemma highfreq_point_extinguishing:
  assumes p: "p < length (mCombustionStateBuffer s)"
    and x: "extinguishing (highfreq_point e gp h p s) p"
  shows "extinguishing s p \<or> smothering e gp s p"
proof (cases "smothering e gp s p")
  case True
  then show ?thesis by simp
next
  case False
  define s1 where "s1 = (if GetState s p = Burning then generate_heat e gp h p s else s)"
  have hp: "highfreq_point e gp h p s = develop_point p s1"
    using False by (simp add: highfreq_point_def Let_def s1_def smothering_def)
  obtain T where T: "generate_heat e gp h p s = s\<lparr>mTemperatureBuffer := T\<rparr>"
    using generate_heat_only_temperature by blast
  have "s1 = s \<or> s1 = s\<lparr>mTemperatureBuffer := T\<rparr>"
    using T by (simp add: s1_def)
  then have same: "mCombustionStateBuffer s1 = mCombustionStateBuffer s"
    by auto
  have "extinguishing s1 p"
    using develop_point_extinguishing[of p s1] p x same by (simp add: hp)
  then show ?thesis
    using same by (simp add: extinguishing_def GetState_def)
qed

text \<open>
  What holds of the storage and the store at every turn of the loop of a pass begun in
  \<open>s0\<close>: the invariant of the burning list; the cells hold entries of the list as it was
  at the beginning, and so does the list; positions, water and the sizes are as they
  were; a point that is extinguishing was so at the beginning or has been smothered; and
  a point that has left the list is not burning, with a flame development of at most
  0.02.
\<close>

definition pass_inv ::
  "CombustionEnv \<Rightarrow> GameParameters \<Rightarrow> nat \<Rightarrow> Points \<Rightarrow> ElementIndex list \<times> Points \<Rightarrow> bool"
where
  "pass_inv e gp m s0 cs \<longleftrightarrow>
     combustion_inv m (snd cs)
     \<and> length (fst cs) = length (mBurningPoints s0)
     \<and> set (fst cs) \<subseteq> set (mBurningPoints s0)
     \<and> set (mBurningPoints (snd cs)) \<subseteq> set (mBurningPoints s0)
     \<and> length (mBurningPoints (snd cs)) \<le> length (mBurningPoints s0)
     \<and> length (mCombustionStateBuffer (snd cs)) = length (mCombustionStateBuffer s0)
     \<and> mShipPointCount (snd cs) = mShipPointCount s0
     \<and> mPositionBuffer (snd cs) = mPositionBuffer s0
     \<and> mWaterBuffer (snd cs) = mWaterBuffer s0
     \<and> (\<forall>q. extinguishing (snd cs) q \<longrightarrow> extinguishing s0 q \<or> smothering e gp s0 q)
     \<and> (\<forall>q \<in> set (mBurningPoints s0).
           q \<notin> set (mBurningPoints (snd cs)) \<longrightarrow> left_extinguished e gp s0 (snd cs) q)"

lemma pass_inv_start:
  assumes "combustion_inv m s0"
  shows "pass_inv e gp m s0 (mBurningPoints s0, s0)"
  using assms by (simp add: pass_inv_def)

lemma smothering_frame:
  "mPositionBuffer s = mPositionBuffer s0 \<Longrightarrow> mWaterBuffer s = mWaterBuffer s0
   \<Longrightarrow> smothering e gp s p = smothering e gp s0 p"
  by (simp add: smothering_def GetPosition_def GetWater_def)

lemma pass_inv_visit:
  assumes inv0: "combustion_inv m s0"
    and J: "pass_inv e gp m s0 cs"
    and i: "i < length (mBurningPoints s0)"
  shows "pass_inv e gp m s0 (highfreq_visit e gp h i cs)"
proof -
  define cells where "cells = fst cs"
  define s where "s = snd cs"
  define p where "p = cells ! i"
  define s1 where "s1 = highfreq_point e gp h p s"
  define cells1 where "cells1 = mBurningPoints s1 @ drop (length (mBurningPoints s1)) cells"
  have visit: "highfreq_visit e gp h i cs = (cells1, s1)"
    by (simp add: highfreq_visit_def Let_def cells1_def s1_def p_def cells_def s_def)
  have inv: "combustion_inv m s"
    and lc: "length cells = length (mBurningPoints s0)"
    and sc: "set cells \<subseteq> set (mBurningPoints s0)"
    and sl: "set (mBurningPoints s) \<subseteq> set (mBurningPoints s0)"
    and ll: "length (mBurningPoints s) \<le> length (mBurningPoints s0)"
    and lb: "length (mCombustionStateBuffer s) = length (mCombustionStateBuffer s0)"
    and cnt: "mShipPointCount s = mShipPointCount s0"
    and pos: "mPositionBuffer s = mPositionBuffer s0"
    and wat: "mWaterBuffer s = mWaterBuffer s0"
    and ext: "\<And>q. extinguishing s q \<Longrightarrow> extinguishing s0 q \<or> smothering e gp s0 q"
    and left: "\<And>q. q \<in> set (mBurningPoints s0) \<Longrightarrow> q \<notin> set (mBurningPoints s)
                \<Longrightarrow> left_extinguished e gp s0 s q"
    using J by (simp_all add: pass_inv_def cells_def s_def)
  have mem0: "\<And>q. q \<in> set (mBurningPoints s0)
        \<longleftrightarrow> q < length (mCombustionStateBuffer s0) \<and> GetState s0 q \<noteq> NotBurning"
    using inv0 by (simp add: combustion_inv_def)
  have "p \<in> set cells"
    using i lc by (simp add: p_def)
  then have p0: "p \<in> set (mBurningPoints s0)"
    using sc by blast
  then have plen: "p < length (mCombustionStateBuffer s)"
    using mem0[of p] lb by simp
  have fr: "visit_frame p s s1" and out: "highfreq_outcome e gp p s s1"
    using highfreq_point_effect[OF plen, of e gp h] by (simp_all add: s1_def)
  have inv1: "combustion_inv m s1"
    using highfreq_point_inv[OF inv plen] by (simp add: s1_def)
  have frame1: "length (mCombustionStateBuffer s1) = length (mCombustionStateBuffer s0)"
    "mShipPointCount s1 = mShipPointCount s0"
    "mPositionBuffer s1 = mPositionBuffer s0" "mWaterBuffer s1 = mWaterBuffer s0"
    using fr lb cnt pos wat by (simp_all add: visit_frame_def)
  have other: "mCombustionStateBuffer s1 ! q = mCombustionStateBuffer s ! q" if "q \<noteq> p" for q
    using fr that by (simp add: visit_frame_def)
  from out consider
    (stay) "mBurningPoints s1 = mBurningPoints s"
    | (leave) "mBurningPoints s1 = remove1 p (mBurningPoints s)"
        "GetState s1 p = NotBurning" "GetState s p \<noteq> NotBurning"
        "FlameDevelopment (mCombustionStateBuffer s1 ! p) \<le> 2 / 100"
        "extinguishing s p \<or> smothering e gp s p"
    by (auto simp: highfreq_outcome_def extinguishing_def smothering_def)
  then have "set (mBurningPoints s1) \<subseteq> set (mBurningPoints s)
      \<and> length (mBurningPoints s1) \<le> length (mBurningPoints s)"
  proof cases
    case stay
    then show ?thesis by simp
  next
    case leave
    have "set (mBurningPoints s1) \<subseteq> set (mBurningPoints s)"
      using set_remove1_subset[of p "mBurningPoints s"] by (simp add: leave(1))
    moreover have "length (mBurningPoints s1) \<le> length (mBurningPoints s)"
      by (auto simp: leave(1) length_remove1)
    ultimately show ?thesis by simp
  qed
  then have sub1: "set (mBurningPoints s1) \<subseteq> set (mBurningPoints s)"
    and len1: "length (mBurningPoints s1) \<le> length (mBurningPoints s)"
    by simp_all
  have lc1: "length cells1 = length (mBurningPoints s0)"
    using len1 ll lc by (simp add: cells1_def)
  have "set (drop (length (mBurningPoints s1)) cells) \<subseteq> set cells"
    by (rule set_drop_subset)
  then have sc1: "set cells1 \<subseteq> set (mBurningPoints s0)"
    using sub1 sl sc by (auto simp: cells1_def)
  have sl1: "set (mBurningPoints s1) \<subseteq> set (mBurningPoints s0)"
    using sub1 sl by blast
  have ll1: "length (mBurningPoints s1) \<le> length (mBurningPoints s0)"
    using len1 ll by simp
  have smo: "smothering e gp s q = smothering e gp s0 q" for q
    using smothering_frame[OF pos wat] .
  have ext1: "extinguishing s0 q \<or> smothering e gp s0 q" if x: "extinguishing s1 q" for q
  proof (cases "q = p")
    case True
    have "extinguishing s p \<or> smothering e gp s p"
      using highfreq_point_extinguishing[OF plen, of e gp h] x True by (simp add: s1_def)
    then show ?thesis
      using ext[of p] smo[of p] True by blast
  next
    case False
    then have "extinguishing s q"
      using x other[OF False] by (simp add: extinguishing_def GetState_def)
    then show ?thesis by (rule ext)
  qed
  have left1: "left_extinguished e gp s0 s1 q"
    if q0: "q \<in> set (mBurningPoints s0)" and q1: "q \<notin> set (mBurningPoints s1)" for q
  proof (cases "q \<in> set (mBurningPoints s)")
    case False
    have l: "left_extinguished e gp s0 s q"
      using left[OF q0 False] .
    have "mCombustionStateBuffer s1 ! q = mCombustionStateBuffer s ! q"
    proof (cases "q = p")
      case True
      have "GetState s p = NotBurning"
        using l True by (simp add: left_extinguished_def)
      then have "s1 = s"
        using highfreq_point_not_burning by (simp add: s1_def)
      then show ?thesis by simp
    next
      case False
      then show ?thesis by (rule other)
    qed
    then show ?thesis
      using l by (simp add: left_extinguished_def GetState_def)
  next
    case True
    from out consider
      (stay) "mBurningPoints s1 = mBurningPoints s"
      | (leave) "mBurningPoints s1 = remove1 p (mBurningPoints s)"
          "GetState s1 p = NotBurning"
          "FlameDevelopment (mCombustionStateBuffer s1 ! p) \<le> 2 / 100"
          "extinguishing s p \<or> smothering e gp s p"
      by (auto simp: highfreq_outcome_def extinguishing_def smothering_def)
    then show ?thesis
    proof cases
      case stay
      then show ?thesis using True q1 by simp
    next
      case leave
      have qp: "q = p"
      proof (rule ccontr)
        assume "q \<noteq> p"
        then have "q \<in> set (remove1 p (mBurningPoints s))"
          using True by simp
        then show False using q1 leave(1) by simp
      qed
      have "GetState s0 p \<noteq> NotBurning"
        using mem0[of p] p0 by simp
      moreover have "extinguishing s0 p \<or> smothering e gp s0 p"
        using leave(4) ext[of p] smo[of p] by blast
      ultimately show ?thesis
        using leave(2,3) qp
        by (simp add: left_extinguished_def extinguishing_def smothering_def)
    qed
  qed
  show ?thesis
    unfolding visit pass_inv_def
    using inv1 lc1 sc1 sl1 ll1 frame1 ext1 left1 by simp
qed

lemma pass_inv_loop:
  assumes inv0: "combustion_inv m s0"
  shows "n \<le> length (mBurningPoints s0)
         \<Longrightarrow> pass_inv e gp m s0
               (fold (highfreq_visit e gp h) [0 ..< n] (mBurningPoints s0, s0))"
proof (induction n)
  case 0
  show ?case using pass_inv_start[OF inv0] by simp
next
  case (Suc n)
  have "pass_inv e gp m s0 (fold (highfreq_visit e gp h) [0 ..< n] (mBurningPoints s0, s0))"
    using Suc by simp
  then have "pass_inv e gp m s0
      (highfreq_visit e gp h n (fold (highfreq_visit e gp h) [0 ..< n] (mBurningPoints s0, s0)))"
    using pass_inv_visit[OF inv0] Suc.prems by simp
  then show ?case by simp
qed

lemma UpdateCombustionHighFrequency_pass:
  assumes "combustion_inv m s"
  shows "\<exists>cells. pass_inv e gp m s (cells, UpdateCombustionHighFrequency e dt gp s)"
proof -
  let ?h = "100 * 1000 * dt * CombustionHeatAdjustment gp"
  let ?r = "fold (highfreq_visit e gp ?h) [0 ..< length (mBurningPoints s)] (mBurningPoints s, s)"
  have "pass_inv e gp m s ?r"
    using pass_inv_loop[OF assms, of "length (mBurningPoints s)" e gp ?h] by simp
  moreover have "?r = (fst ?r, UpdateCombustionHighFrequency e dt gp s)"
    by (simp add: UpdateCombustionHighFrequency_def Let_def)
  ultimately show ?thesis by metis
qed

lemma UpdateCombustionHighFrequency_inv:
  assumes "combustion_inv m s"
  shows "combustion_inv m (UpdateCombustionHighFrequency e dt gp s)"
    and "set (mBurningPoints (UpdateCombustionHighFrequency e dt gp s)) \<subseteq> set (mBurningPoints s)"
    and "mShipPointCount (UpdateCombustionHighFrequency e dt gp s) = mShipPointCount s"
  using UpdateCombustionHighFrequency_pass[OF assms, of e gp dt]
  by (auto simp: pass_inv_def)

lemma UpdateCombustionHighFrequency_leaves:
  assumes "combustion_inv m s"
    and "p \<in> set (mBurningPoints s)"
    and "p \<notin> set (mBurningPoints (UpdateCombustionHighFrequency e dt gp s))"
  shows "left_extinguished e gp s (UpdateCombustionHighFrequency e dt gp s) p"
  using UpdateCombustionHighFrequency_pass[OF assms(1), of e gp dt] assms(2,3)
  by (auto simp: pass_inv_def)

subsection \<open>Reachable combustion states\<close>

lemma OnOrphaned_inv:
  assumes "combustion_inv m s"
  shows "combustion_inv m (OnOrphaned r p s)"
proof (cases "GetState s p = Burning")
  case True
  have st: "GetState (set_FlameDevelopment p r s) q = GetState s q"
    if "q < length (mCombustionStateBuffer s)" for q
    using that by (cases "q = p") (simp_all add: set_FlameDevelopment_def GetState_def)
  have "mBurningPoints (set_FlameDevelopment p r s) = mBurningPoints s"
    "length (mCombustionStateBuffer (set_FlameDevelopment p r s))
       = length (mCombustionStateBuffer s)"
    "mShipPointCount (set_FlameDevelopment p r s) = mShipPointCount s"
    by (simp_all add: set_FlameDevelopment_def)
  moreover have "q \<in> set (mBurningPoints s)
      \<longleftrightarrow> q < length (mCombustionStateBuffer s)
          \<and> GetState (set_FlameDevelopment p r s) q \<noteq> NotBurning" for q
  proof (cases "q < length (mCombustionStateBuffer s)")
    case True
    then show ?thesis
      using assms st[OF True] by (simp add: combustion_inv_def)
  next
    case False
    then show ?thesis
      using assms by (simp add: combustion_inv_def)
  qed
  ultimately have "combustion_inv m (set_FlameDevelopment p r s)"
    using assms by (simp add: combustion_inv_def)
  then show ?thesis
    using True by (simp add: OnOrphaned_def)
next
  case False
  then show ?thesis
    using assms by (simp add: OnOrphaned_def)
qed

definition same_combustion :: "Points \<Rightarrow> Points \<Rightarrow> bool" where
  "same_combustion s s' \<longleftrightarrow>
     mShipPointCount s' = mShipPointCount s
     \<and> mCombustionStateBuffer s' = mCombustionStateBuffer s
     \<and> mset (mBurningPoints s') = mset (mBurningPoints s)"

lemma same_combustion_inv:
  assumes "combustion_inv m s" "same_combustion s s'"
  shows "combustion_inv m s'"
proof -
  have ms: "mset (mBurningPoints s') = mset (mBurningPoints s)"
    using assms(2) by (simp add: same_combustion_def)
  have "set (mBurningPoints s') = set (mBurningPoints s)"
    using ms by (rule mset_eq_setD)
  moreover have "length (mBurningPoints s') = length (mBurningPoints s)"
    using ms by (rule mset_eq_length)
  moreover have "distinct (mBurningPoints s') \<longleftrightarrow> distinct (mBurningPoints s)"
    using ms by (rule mset_eq_imp_distinct_iff)
  ultimately show ?thesis
    using assms by (simp add: combustion_inv_def same_combustion_def GetState_def)
qed

text \<open>
  Only ship points are scanned for ignition, so every entry of the burning list is a
  ship point.
\<close>

definition burning_in_ship :: "Points \<Rightarrow> bool" where
  "burning_in_ship s \<longleftrightarrow> (\<forall>p \<in> set (mBurningPoints s). p < mShipPointCount s)"

lemma UpdateCombustionLowFrequency_in_ship:
  assumes ship: "burning_in_ship s"
    and len: "mShipPointCount s \<le> length (mCombustionStateBuffer s)"
    and ct: "nth_element_contract (nth_element e)"
    and st: "0 < stride"
    and wr: "mShipPointCount s + stride \<le> 4294967296"
    and upd: "UpdateCombustionLowFrequency e offset stride dt gp s = Some s'"
  shows "burning_in_ship s'"
proof -
  define C where "C = mIgnitionCandidates s'"
  define K where "K = ignition_count e gp s (length C)"
  obtain s1 where fr: "scan_frame s s1"
    and ok: "candidates_ok gp s C"
    and isf: "ignited_so_far C K (s1\<lparr>mIgnitionCandidates := C\<rparr>) s'"
    using lowfreq_pass[OF ct st wr len, of offset dt gp] upd
    by (auto simp: C_def K_def)
  have l1: "mBurningPoints s1 = mBurningPoints s" "mShipPointCount s1 = mShipPointCount s"
    using fr by (simp_all add: scan_frame_def)
  have cnt: "mShipPointCount s' = mShipPointCount s"
    using isf l1 by (simp add: ignited_so_far_def)
  have bset: "set (mBurningPoints s') = set (mBurningPoints s) \<union> fst ` set (take K C)"
    using isf l1 by (simp add: ignited_so_far_def)
  have "q < mShipPointCount s" if q: "q \<in> set (mBurningPoints s')" for q
  proof (cases "q \<in> set (mBurningPoints s)")
    case True
    then show ?thesis using ship by (simp add: burning_in_ship_def)
  next
    case False
    then have "q \<in> fst ` set (take K C)"
      using q bset by simp
    then have "\<exists>c. c \<in> set C \<and> q = fst c"
      using in_set_takeD by fastforce
    then obtain c where "c \<in> set C" "q = fst c"
      by blast
    then show ?thesis
      using ok by (simp add: candidates_ok_def)
  qed
  then show ?thesis
    using cnt by (simp add: burning_in_ship_def)
qed

lemma UpdateCombustionHighFrequency_in_ship:
  assumes "combustion_inv m s" "burning_in_ship s"
  shows "burning_in_ship (UpdateCombustionHighFrequency e dt gp s)"
  using UpdateCombustionHighFrequency_inv(2,3)[OF assms(1), of e dt gp] assms(2)
  by (auto simp: burning_in_ship_def)

lemma OnOrphaned_in_ship: "burning_in_ship s \<Longrightarrow> burning_in_ship (OnOrphaned r p s)"
  by (simp add: OnOrphaned_def set_FlameDevelopment_def burning_in_ship_def)

lemma same_combustion_in_ship:
  assumes "burning_in_ship s" "same_combustion s s'"
  shows "burning_in_ship s'"
proof -
  have "mset (mBurningPoints s') = mset (mBurningPoints s)"
    using assms(2) by (simp add: same_combustion_def)
  then have "set (mBurningPoints s') = set (mBurningPoints s)"
    by (rule mset_eq_setD)
  then show ?thesis
    using assms by (simp add: burning_in_ship_def same_combustion_def)
qed

text \<open>
  The creation of an ephemeral particle resets the combustion state of the slot it
  takes. The slot lies in the ephemeral region, where nothing burns.
\<close>

lemma store_ephemeral_combustion:
  assumes inv: "combustion_inv m s" and ship: "burning_in_ship s"
    and p: "mShipPointCount s \<le> p"
  shows "combustion_inv m (store_ephemeral c p pos v mat w T k t l pl s)"
    and "burning_in_ship (store_ephemeral c p pos v mat w T k t l pl s)"
proof -
  let ?s' = "store_ephemeral c p pos v mat w T k t l pl s"
  have f: "mShipPointCount ?s' = mShipPointCount s"
    "mBurningPoints ?s' = mBurningPoints s"
    "mCombustionStateBuffer ?s' = (mCombustionStateBuffer s)[p := CombustionState0]"
    by (simp_all add: store_ephemeral_def)
  have mem: "\<And>q. q \<in> set (mBurningPoints s)
        \<longleftrightarrow> q < length (mCombustionStateBuffer s) \<and> GetState s q \<noteq> NotBurning"
    using inv by (simp add: combustion_inv_def)
  have pnot: "p \<notin> set (mBurningPoints s)"
    using ship p by (auto simp: burning_in_ship_def)
  have mem': "q \<in> set (mBurningPoints ?s')
      \<longleftrightarrow> q < length (mCombustionStateBuffer ?s') \<and> GetState ?s' q \<noteq> NotBurning" for q
  proof (cases "q = p")
    case True
    show ?thesis
    proof (cases "p < length (mCombustionStateBuffer s)")
      case True
      then have "GetState ?s' p = NotBurning"
        by (simp add: GetState_def f CombustionState0_def)
      then show ?thesis
        using pnot \<open>q = p\<close> f by simp
    next
      case False
      then show ?thesis
        using pnot \<open>q = p\<close> f by simp
    qed
  next
    case False
    then have "GetState ?s' q = GetState s q"
      by (simp add: GetState_def f)
    then show ?thesis
      using mem[of q] f by simp
  qed
  show "combustion_inv m ?s'"
    using inv mem' f by (simp add: combustion_inv_def)
  show "burning_in_ship ?s'"
    using ship f by (simp add: burning_in_ship_def)
qed

lemma advance_search_start_combustion:
  "combustion_inv m (advance_search_start s p) = combustion_inv m s"
  "burning_in_ship (advance_search_start s p) = burning_in_ship s"
  by (simp_all add: combustion_inv_def burning_in_ship_def advance_search_start_def Let_def
      GetState_def)

lemma FindFreeEphemeralParticle_combustion:
  assumes inv: "combustion_inv m s" and ship: "burning_in_ship s"
    and wf: "pool_wf s" and nf: "no_future_start now s"
    and f: "FindFreeEphemeralParticle now force s = Some (p, s1)"
  shows "combustion_inv m s1 \<and> burning_in_ship s1 \<and> mShipPointCount s1 = mShipPointCount s
         \<and> (mShipPointCount s \<le> p \<and> p \<noteq> NoneElementIndex
             \<or> \<not> force \<and> p = NoneElementIndex)"
proof -
  obtain p0 s0 where "FindFreeEphemeralParticle now force s = Some (p0, s0)"
    and c: "(p0 \<in> ephemeral_region s \<and> s0 = advance_search_start s p0)
             \<or> (\<not> force \<and> p0 = NoneElementIndex \<and> s0 = s)"
    using FindFreeEphemeralParticle_cases[OF wf nf, of force] by blast
  with f have e: "p0 = p" "s0 = s1" by auto
  from c show ?thesis
  proof (elim disjE)
    assume a: "p0 \<in> ephemeral_region s \<and> s0 = advance_search_start s p0"
    then have "mShipPointCount s \<le> p" "p \<noteq> NoneElementIndex"
      using e wf by (auto simp: ephemeral_region_def pool_wf_def)
    moreover have "mShipPointCount s1 = mShipPointCount s"
      using a e by (simp add: advance_search_start_def Let_def)
    ultimately show ?thesis
      using a e inv ship by (simp add: advance_search_start_combustion)
  next
    assume "\<not> force \<and> p0 = NoneElementIndex \<and> s0 = s"
    then show ?thesis
      using e inv ship by simp
  qed
qed

lemma CreateEphemeralParticle_combustion:
  assumes inv: "combustion_inv m s" and ship: "burning_in_ship s"
    and wf: "pool_wf s" and nf: "no_future_start now s"
    and cr: "CreateEphemeralParticleAirBubble calcCoeff gp position material now planeId s
               = Some s'
             \<or> CreateEphemeralParticleDebris calcCoeff gp position velocity material now
                 maxLifetime planeId s = Some s'
             \<or> CreateEphemeralParticleSparkle calcCoeff position velocity material now
                 maxLifetime planeId s = Some s'"
  shows "combustion_inv m s' \<and> burning_in_ship s'"
  using cr
proof (elim disjE)
  assume a: "CreateEphemeralParticleAirBubble calcCoeff gp position material now planeId s
               = Some s'"
  then obtain p s1 where f: "FindFreeEphemeralParticle now False s = Some (p, s1)"
    by (auto simp: CreateEphemeralParticleAirBubble_def split: option.splits)
  note r = FindFreeEphemeralParticle_combustion[OF inv ship wf nf f]
  show ?thesis
  proof (cases "NoneElementIndex = p")
    case True
    then have "s' = s1"
      using a f by (simp add: CreateEphemeralParticleAirBubble_def)
    then show ?thesis using r by simp
  next
    case False
    then have s': "s' = store_ephemeral calcCoeff p position (0, 0) material
        (WaterVolumeFill material) (InitialTemperature gp) AirBubble now FloatMax planeId s1"
      using a f by (simp add: CreateEphemeralParticleAirBubble_def)
    have i1: "combustion_inv m s1" "burning_in_ship s1"
      using r by simp_all
    have le: "mShipPointCount s1 \<le> p"
      using r False by auto
    show ?thesis
      unfolding s' using store_ephemeral_combustion[OF i1 le] by simp
  qed
next
  assume a: "CreateEphemeralParticleDebris calcCoeff gp position velocity material now
                 maxLifetime planeId s = Some s'"
  then obtain p s1 where f: "FindFreeEphemeralParticle now True s = Some (p, s1)"
    by (auto simp: CreateEphemeralParticleDebris_def split: option.splits)
  note r = FindFreeEphemeralParticle_combustion[OF inv ship wf nf f]
  have s': "s' = store_ephemeral calcCoeff p position velocity material
      0 (InitialTemperature gp) Debris now maxLifetime planeId s1"
    using a f by (simp add: CreateEphemeralParticleDebris_def)
  have i1: "combustion_inv m s1" "burning_in_ship s1"
    using r by simp_all
  have le: "mShipPointCount s1 \<le> p"
    using r by auto
  show ?thesis
    unfolding s' using store_ephemeral_combustion[OF i1 le] by simp
next
  assume a: "CreateEphemeralParticleSparkle calcCoeff position velocity material now
                 maxLifetime planeId s = Some s'"
  then obtain p s1 where f: "FindFreeEphemeralParticle now True s = Some (p, s1)"
    by (auto simp: CreateEphemeralParticleSparkle_def split: option.splits)
  note r = FindFreeEphemeralParticle_combustion[OF inv ship wf nf f]
  have s': "s' = store_ephemeral calcCoeff p position velocity material
      0 (77315 / 100) Sparkle now maxLifetime planeId s1"
    using a f by (simp add: CreateEphemeralParticleSparkle_def)
  have i1: "combustion_inv m s1" "burning_in_ship s1"
    using r by simp_all
  have le: "mShipPointCount s1 \<le> p"
    using r by auto
  show ?thesis
    unfolding s' using store_ephemeral_combustion[OF i1 le] by simp
qed

text \<open>
  The combustion states a ship can reach by passes run with a maximum number of burning
  particles of at most \<open>maxBurning\<close> (the parameter is read anew in every low-frequency
  pass, and may differ from one pass to the next): at the start no point burns and the
  burning list is empty; then come low-frequency passes (with a positive stride that
  does not wrap the cursor, and a library \<open>nth_element\<close> that keeps its guarantee),
  high-frequency passes, orphanings, the creation of ephemeral particles (in a pool whose
  search start index lies in the ephemeral region and whose occupied slots were started
  no later than the current simulation time), and any other change that keeps the
  combustion state buffer and the entries of the burning list (their order may change,
  as when the list is re-sorted by plane).
\<close>

inductive combustion_reachable :: "nat \<Rightarrow> Points \<Rightarrow> bool" for maxBurning where
  start:
    "mShipPointCount s \<le> length (mCombustionStateBuffer s) \<Longrightarrow> mBurningPoints s = []
     \<Longrightarrow> (\<forall>p < length (mCombustionStateBuffer s). GetState s p = NotBurning)
     \<Longrightarrow> combustion_reachable maxBurning s"
| low_frequency:
    "combustion_reachable maxBurning s \<Longrightarrow> MaxBurningParticles gp \<le> maxBurning
     \<Longrightarrow> nth_element_contract (nth_element e) \<Longrightarrow> 0 < stride
     \<Longrightarrow> mShipPointCount s + stride \<le> 4294967296
     \<Longrightarrow> UpdateCombustionLowFrequency e offset stride dt gp s = Some s'
     \<Longrightarrow> combustion_reachable maxBurning s'"
| high_frequency:
    "combustion_reachable maxBurning s
     \<Longrightarrow> combustion_reachable maxBurning (UpdateCombustionHighFrequency e dt gp s)"
| orphaned:
    "combustion_reachable maxBurning s \<Longrightarrow> combustion_reachable maxBurning (OnOrphaned r p s)"
| ephemeral_created:
    "combustion_reachable maxBurning s \<Longrightarrow> pool_wf s \<Longrightarrow> no_future_start now s
     \<Longrightarrow> CreateEphemeralParticleAirBubble calcCoeff gp position material now planeId s
           = Some s'
         \<or> CreateEphemeralParticleDebris calcCoeff gp position velocity material now
             maxLifetime planeId s = Some s'
         \<or> CreateEphemeralParticleSparkle calcCoeff position velocity material now
             maxLifetime planeId s = Some s'
     \<Longrightarrow> combustion_reachable maxBurning s'"
| other:
    "combustion_reachable maxBurning s \<Longrightarrow> same_combustion s s'
     \<Longrightarrow> combustion_reachable maxBurning s'"

lemma combustion_reachable_inv_ship:
  "combustion_reachable maxBurning s
   \<Longrightarrow> combustion_inv maxBurning s \<and> burning_in_ship s"
proof (induction rule: combustion_reachable.induct)
  case (start s)
  then show ?case by (simp add: combustion_inv_def burning_in_ship_def)
next
  case (low_frequency s gp e stride offset dt s')
  have inv: "combustion_inv maxBurning s" and ship: "burning_in_ship s"
    using low_frequency.IH by simp_all
  have len: "mShipPointCount s \<le> length (mCombustionStateBuffer s)"
    using inv by (simp add: combustion_inv_def)
  have "combustion_inv maxBurning s'"
    using UpdateCombustionLowFrequency_inv(1)[OF inv low_frequency.hyps(2-6)] .
  moreover have "burning_in_ship s'"
    using UpdateCombustionLowFrequency_in_ship[OF ship len low_frequency.hyps(3-6)] .
  ultimately show ?case by simp
next
  case (high_frequency s e dt gp)
  then show ?case
    using UpdateCombustionHighFrequency_inv(1) UpdateCombustionHighFrequency_in_ship by blast
next
  case (orphaned s r p)
  then show ?case using OnOrphaned_inv OnOrphaned_in_ship by blast
next
  case (ephemeral_created s now calcCoeff gp position material planeId s' velocity maxLifetime)
  have inv: "combustion_inv maxBurning s" and ship: "burning_in_ship s"
    using ephemeral_created.IH by simp_all
  show ?case
    using CreateEphemeralParticle_combustion[OF inv ship ephemeral_created.hyps(2-4)] .
next
  case (other s s')
  then show ?case using same_combustion_inv same_combustion_in_ship by blast
qed

lemma combustion_reachable_inv:
  "combustion_reachable maxBurning s \<Longrightarrow> combustion_inv maxBurning s"
  using combustion_reachable_inv_ship by blast

lemma combustion_inv_cap:
  assumes "combustion_inv m s"
  shows "card {p. p < length (mCombustionStateBuffer s)
                  \<and> (GetState s p = Developing_1 \<or> GetState s p = Developing_2
                      \<or> GetState s p = Burning)} \<le> m"
proof -
  have mem: "q \<in> set (mBurningPoints s)"
    if "q < length (mCombustionStateBuffer s)" "GetState s q \<noteq> NotBurning" for q
    using assms that by (simp add: combustion_inv_def)
  have "{p. p < length (mCombustionStateBuffer s)
            \<and> (GetState s p = Developing_1 \<or> GetState s p = Developing_2
                \<or> GetState s p = Burning)} \<subseteq> set (mBurningPoints s)"
  proof
    fix q
    assume "q \<in> {p. p < length (mCombustionStateBuffer s)
            \<and> (GetState s p = Developing_1 \<or> GetState s p = Developing_2
                \<or> GetState s p = Burning)}"
    then have "q < length (mCombustionStateBuffer s)" "GetState s q \<noteq> NotBurning"
      by auto
    then show "q \<in> set (mBurningPoints s)" by (rule mem)
  qed
  then have "card {p. p < length (mCombustionStateBuffer s)
            \<and> (GetState s p = Developing_1 \<or> GetState s p = Developing_2
                \<or> GetState s p = Burning)} \<le> card (set (mBurningPoints s))"
    by (intro card_mono) simp_all
  also have "\<dots> \<le> length (mBurningPoints s)"
    by (rule card_length)
  also have "\<dots> \<le> m"
    using assms by (simp add: combustion_inv_def)
  finally show ?thesis .
qed

lemma combustion_inv_mono: "combustion_inv m s \<Longrightarrow> m \<le> m' \<Longrightarrow> combustion_inv m' s"
  by (simp add: combustion_inv_def)

text \<open>
  Claim C1, as amended. In every combustion state reached by passes whose maximum number
  of burning particles was at most \<open>maxBurning\<close>, the number of points whose combustion
  state is one of the two developing states or burning is at most \<open>maxBurning\<close>: the
  count is bounded by the largest value the parameter has had in a low-frequency pass so
  far. A low-frequency pass run from there with any parameters ignites at most its own
  maximum number of burning particles minus the current number of entries of the burning
  list (none when the list is that long already), leaves a list no longer than the
  greater of the old length and that maximum, and removes no entry from the list. A point
  that a high-frequency pass removes from the burning list ends not burning with a flame
  development of at most 0.02, having been extinguishing at the start of the pass or
  smothered during it.
\<close>

theorem combustion_cap:
  assumes "combustion_reachable maxBurning s"
  shows "card {p. p < length (mCombustionStateBuffer s)
                  \<and> (GetState s p = Developing_1 \<or> GetState s p = Developing_2
                      \<or> GetState s p = Burning)} \<le> maxBurning
         \<and> (\<forall>e offset stride dt gp s'.
               nth_element_contract (nth_element e) \<and> 0 < stride
               \<and> mShipPointCount s + stride \<le> 4294967296
               \<and> UpdateCombustionLowFrequency e offset stride dt gp s = Some s'
               \<longrightarrow> card {p. p < length (mCombustionStateBuffer s)
                             \<and> GetState s p = NotBurning \<and> GetState s' p = Developing_1}
                     \<le> MaxBurningParticles gp - length (mBurningPoints s)
                   \<and> length (mBurningPoints s')
                       \<le> max (length (mBurningPoints s)) (MaxBurningParticles gp)
                   \<and> set (mBurningPoints s) \<subseteq> set (mBurningPoints s'))
         \<and> (\<forall>e dt gp p.
               p \<in> set (mBurningPoints s)
               \<and> p \<notin> set (mBurningPoints (UpdateCombustionHighFrequency e dt gp s))
               \<longrightarrow> left_extinguished e gp s (UpdateCombustionHighFrequency e dt gp s) p)"
proof -
  have inv: "combustion_inv maxBurning s"
    using assms by (rule combustion_reachable_inv)
  have len: "mShipPointCount s \<le> length (mCombustionStateBuffer s)"
    using inv by (simp add: combustion_inv_def)
  have low: "card {p. p < length (mCombustionStateBuffer s)
                      \<and> GetState s p = NotBurning \<and> GetState s' p = Developing_1}
               \<le> MaxBurningParticles gp - length (mBurningPoints s)
             \<and> length (mBurningPoints s')
                 \<le> max (length (mBurningPoints s)) (MaxBurningParticles gp)
             \<and> set (mBurningPoints s) \<subseteq> set (mBurningPoints s')"
    if a: "nth_element_contract (nth_element e)"
      "0 < stride" "mShipPointCount s + stride \<le> 4294967296"
      "UpdateCombustionLowFrequency e offset stride dt gp s = Some s'"
    for e offset stride dt gp s'
  proof -
    define m where "m = max maxBurning (MaxBurningParticles gp)"
    have invm: "combustion_inv m s"
      using combustion_inv_mono[OF inv] by (simp add: m_def)
    have capm: "MaxBurningParticles gp \<le> m"
      by (simp add: m_def)
    have "card {p. p < length (mCombustionStateBuffer s)
                   \<and> GetState s p = NotBurning \<and> GetState s' p = Developing_1}
        = min (min (4 + Choose e 6) (MaxBurningParticles gp - length (mBurningPoints s)))
              (length (mIgnitionCandidates s'))"
      using lowfreq_pass_summary[OF a(1,2,3) len, of offset dt gp] a(4)
      by (auto simp: Let_def)
    then have "card {p. p < length (mCombustionStateBuffer s)
                   \<and> GetState s p = NotBurning \<and> GetState s' p = Developing_1}
        \<le> MaxBurningParticles gp - length (mBurningPoints s)"
      by simp
    moreover have "length (mBurningPoints s')
        = length (mBurningPoints s)
          + ignition_count e gp s (length (mIgnitionCandidates s'))"
      using UpdateCombustionLowFrequency_inv(2)[OF invm capm a] .
    then have "length (mBurningPoints s')
        \<le> max (length (mBurningPoints s)) (MaxBurningParticles gp)"
      by (simp add: ignition_count_def)
    moreover have "set (mBurningPoints s) \<subseteq> set (mBurningPoints s')"
      using UpdateCombustionLowFrequency_inv(3)[OF invm capm a] .
    ultimately show ?thesis by simp
  qed
  have high: "left_extinguished e gp s (UpdateCombustionHighFrequency e dt gp s) p"
    if "p \<in> set (mBurningPoints s)
        \<and> p \<notin> set (mBurningPoints (UpdateCombustionHighFrequency e dt gp s))"
    for e dt gp p
    using UpdateCombustionHighFrequency_leaves[OF inv] that by blast
  show ?thesis
  proof (intro conjI allI impI)
    show "card {p. p < length (mCombustionStateBuffer s)
                  \<and> (GetState s p = Developing_1 \<or> GetState s p = Developing_2
                      \<or> GetState s p = Burning)} \<le> maxBurning"
      using combustion_inv_cap[OF inv] .
  qed (use low high in \<open>blast+\<close>)
qed

subsection \<open>A concrete ship on fire\<close>

text \<open>A routine that meets the guarantee of \<open>nth_element\<close>: sorting by decreasing key.\<close>

definition ex_nth_element ::
  "nat \<Rightarrow> (ElementIndex \<times> real) list \<Rightarrow> (ElementIndex \<times> real) list"
where
  "ex_nth_element n xs = rev (sort_key snd xs)"

lemma ex_nth_element_contract: "nth_element_contract ex_nth_element"
proof -
  have ord: "snd (rev (sort_key snd xs) ! j) \<le> snd (rev (sort_key snd xs) ! i)"
    if "i < j" "j < length xs" for xs :: "(ElementIndex \<times> real) list" and i j
  proof -
    let ?ys = "sort_key snd xs"
    have s: "sorted (map snd ?ys)" by (rule sorted_sort_key)
    have l: "length ?ys = length xs" by simp
    have a: "rev ?ys ! j = ?ys ! (length xs - Suc j)" "rev ?ys ! i = ?ys ! (length xs - Suc i)"
      using that l by (simp_all add: rev_nth)
    have "map snd ?ys ! (length xs - Suc j) \<le> map snd ?ys ! (length xs - Suc i)"
      using s that l by (intro sorted_nth_mono) simp_all
    then show ?thesis
      using a that l by simp
  qed
  show ?thesis
    unfolding nth_element_contract_def ex_nth_element_def
    using ord by auto
qed

definition ex_env :: CombustionEnv where
  "ex_env =
     \<lparr>IsUnderwater = (\<lambda>pos. snd pos < 0),
      normalise = (\<lambda>v. v),
      SmoothStep = (\<lambda>lo hi x. min 1 (max 0 ((x - lo) / (hi - lo)))),
      Choose = (\<lambda>n. n - 1),
      GenerateRandomNormalizedReal = (\<lambda>i. 1 / 2),
      nth_element = ex_nth_element\<rparr>"

text \<open>
  Three ship points above water, dry and intact, with ignition temperature 500: the
  first at 600 degrees, the second at 700, the third cold. At most one particle may burn.
\<close>

definition ex_ship :: Points where
  "ex_ship =
     \<lparr>mShipPointCount = 3, mEphemeralPointCount = 0,
      mMaterialsBuffer = [ex_material, ex_material, ex_material],
      mPositionBuffer = [(0, 1), (1, 1), (2, 1)],
      mVelocityBuffer = [(0, 0), (0, 0), (0, 0)],
      mAugmentedMaterialMassBuffer = [1, 1, 1],
      mMassBuffer = [1, 1, 1],
      mDecayBuffer = [1, 1, 1],
      mIntegrationFactorTimeCoefficientBuffer = [1, 1, 1],
      mIntegrationFactorBuffer = [(0, 0), (0, 0), (0, 0)],
      mMaterialWaterVolumeFillBuffer = [0, 0, 0],
      mWaterBuffer = [0, 0, 0],
      mTemperatureBuffer = [600, 700, 298],
      mMaterialHeatCapacityBuffer = [1, 1, 1],
      mMaterialIgnitionTemperatureBuffer = [500, 500, 500],
      mCombustionStateBuffer = [CombustionState0, CombustionState0, CombustionState0],
      mEphemeralTypeBuffer = [NoneEphemeral, NoneEphemeral, NoneEphemeral],
      mEphemeralStartTimeBuffer = [0, 0, 0],
      mEphemeralMaxLifetimeBuffer = [0, 0, 0],
      mConnectedSpringsBuffer = [[], [], []],
      mPlaneIdBuffer = [0, 0, 0],
      mIsPinnedBuffer = [False, False, False],
      mBurningPoints = [],
      mIgnitionCandidates = [],
      mFreeEphemeralParticleSearchStartIndex = 3,
      mCurrentNumMechanicalDynamicsIterations = 1,
      mGameEventHandler = []\<rparr>"

definition ex_gp1 :: GameParameters where
  "ex_gp1 = ex_gp\<lparr>MaxBurningParticles := 1\<rparr>"

lemma ex_scan:
  "lowfreq_loop ex_env ex_gp1 r 1 0 (ex_ship\<lparr>mIgnitionCandidates := []\<rparr>)
     = Some (ex_ship\<lparr>mIgnitionCandidates := [(0, 1 / 5), (1, 2 / 5)]\<rparr>)"
proof -
  have sp: "stride_points 0 1 3 = [0, 1, 2]"
    by (simp add: stride_points.simps)
  have l: "lowfreq_loop ex_env ex_gp1 r 1 0 (ex_ship\<lparr>mIgnitionCandidates := []\<rparr>)
      = Some (fold (lowfreq_point ex_env ex_gp1 r) (stride_points 0 1 3)
                (ex_ship\<lparr>mIgnitionCandidates := []\<rparr>))"
    by (rule lowfreq_loop_fold) (simp_all add: ex_ship_def)
  show ?thesis
    unfolding l sp
    by (simp add: lowfreq_point_def Let_def GetState_def GetTemperature_def GetPosition_def
        GetWater_def GetDecay_def effectiveIgnitionTemperature_def ignition_key_def
        ex_ship_def ex_gp1_def ex_gp_def ex_env_def CombustionState0_def)
qed

lemma ex_pass_candidates:
  "\<exists>s'. UpdateCombustionLowFrequency ex_env 0 1 (1 / 50) ex_gp1 ex_ship = Some s'
        \<and> mIgnitionCandidates s' = [(1, 2 / 5), (0, 1 / 5)]"
proof -
  have K: "max_points_to_ignite ex_env ex_gp1
      (ex_ship\<lparr>mIgnitionCandidates := [(0, 1 / 5), (1, 2 / 5)]\<rparr>) = 1"
    by (simp add: max_points_to_ignite_def ex_ship_def ex_gp1_def ex_gp_def ex_env_def)
  have srt: "nth_element ex_env (Suc 0) [(0, 1 / 5), (Suc 0, 2 / 5)]
      = [(Suc 0, 2 / 5), (0 :: nat, 1 / 5 :: real)]"
    by (simp add: ex_env_def ex_nth_element_def sort_key_def)
  have "mIgnitionCandidates (ignite_candidates ex_env ex_gp1
      (ex_ship\<lparr>mIgnitionCandidates := [(0, 1 / 5), (1, 2 / 5)]\<rparr>)) = [(1, 2 / 5), (0, 1 / 5)]"
    unfolding ignite_candidates_def K Let_def
    by (simp add: ignite_point_fields srt)
  then show ?thesis
    using ex_scan by (simp add: UpdateCombustionLowFrequency_def Let_def)
qed

theorem lowfreq_ignites_top_candidates_witness:
  "nth_element_contract (nth_element ex_env)
   \<and> mShipPointCount ex_ship + 1 \<le> 4294967296
   \<and> mShipPointCount ex_ship \<le> length (mCombustionStateBuffer ex_ship)
   \<and> (\<exists>s'. UpdateCombustionLowFrequency ex_env 0 1 (1 / 50) ex_gp1 ex_ship = Some s'
         \<and> mIgnitionCandidates s' = [(1, 2 / 5), (0, 1 / 5)]
         \<and> {p. p < length (mCombustionStateBuffer ex_ship)
                \<and> GetState ex_ship p = NotBurning \<and> GetState s' p = Developing_1} = {1})"
proof -
  have c: "nth_element_contract (nth_element ex_env)"
    using ex_nth_element_contract by (simp add: ex_env_def)
  have w: "mShipPointCount ex_ship + 1 \<le> 4294967296"
    and l: "mShipPointCount ex_ship \<le> length (mCombustionStateBuffer ex_ship)"
    by (simp_all add: ex_ship_def)
  obtain s' where s': "UpdateCombustionLowFrequency ex_env 0 1 (1 / 50) ex_gp1 ex_ship = Some s'"
    "mIgnitionCandidates s' = [(1, 2 / 5), (0, 1 / 5)]"
    using ex_pass_candidates by blast
  have f: "Choose ex_env 6 = 5" "MaxBurningParticles ex_gp1 = 1" "mBurningPoints ex_ship = []"
    by (simp_all add: ex_env_def ex_gp1_def ex_ship_def)
  have "{p. p < length (mCombustionStateBuffer ex_ship)
            \<and> GetState ex_ship p = NotBurning \<and> GetState s' p = Developing_1} = {1}"
    using lowfreq_ignites_top_candidates[OF c _ w l, of 0 "1 / 50" ex_gp1] s'
    by (simp add: Let_def f)
  with c w l s' show ?thesis by blast
qed

definition ex_ignited_ship :: Points where
  "ex_ignited_ship = the (UpdateCombustionLowFrequency ex_env 0 1 (1 / 50) ex_gp1 ex_ship)"

lemma ex_ignited_ship_reachable: "combustion_reachable 1 ex_ignited_ship"
proof -
  have st: "combustion_reachable 1 ex_ship"
    by (rule combustion_reachable.start)
       (simp_all add: ex_ship_def GetState_def CombustionState0_def less_Suc_eq numeral_3_eq_3)
  obtain s' where s': "UpdateCombustionLowFrequency ex_env 0 1 (1 / 50) ex_gp1 ex_ship = Some s'"
    using ex_pass_candidates by blast
  then have e: "ex_ignited_ship = s'"
    by (simp add: ex_ignited_ship_def)
  have c: "nth_element_contract (nth_element ex_env)"
    using ex_nth_element_contract by (simp add: ex_env_def)
  show ?thesis
    unfolding e
    by (rule combustion_reachable.low_frequency[OF st _ c _ _ s'])
       (simp_all add: ex_gp1_def ex_ship_def)
qed

theorem combustion_cap_witness:
  "combustion_reachable 1 ex_ignited_ship
   \<and> card {p. p < length (mCombustionStateBuffer ex_ignited_ship)
              \<and> (GetState ex_ignited_ship p = Developing_1
                  \<or> GetState ex_ignited_ship p = Developing_2
                  \<or> GetState ex_ignited_ship p = Burning)} \<le> 1"
  using combustion_cap[OF ex_ignited_ship_reachable] ex_ignited_ship_reachable by blast

subsection \<open>Lowering the maximum number of burning particles\<close>

text \<open>
  The claim as the specification words it: at a tick run with parameters \<open>gp\<close>, the
  number of developing or burning points is at most the maximum number of burning
  particles of \<open>gp\<close>.
\<close>

definition combustion_cap_as_specified :: "GameParameters \<Rightarrow> Points \<Rightarrow> bool" where
  "combustion_cap_as_specified gp s \<longleftrightarrow>
     card {p. p < length (mCombustionStateBuffer s)
              \<and> (GetState s p = Developing_1 \<or> GetState s p = Developing_2
                  \<or> GetState s p = Burning)} \<le> MaxBurningParticles gp"

text \<open>A low-frequency pass leaves a developing point as it is.\<close>

lemma UpdateCombustionLowFrequency_developing:
  assumes ct: "nth_element_contract (nth_element e)"
    and st: "0 < stride"
    and wr: "mShipPointCount s + stride \<le> 4294967296"
    and len: "mShipPointCount s \<le> length (mCombustionStateBuffer s)"
    and upd: "UpdateCombustionLowFrequency e offset stride dt gp s = Some s'"
  shows "length (mCombustionStateBuffer s') = length (mCombustionStateBuffer s)"
    and "p < length (mCombustionStateBuffer s) \<Longrightarrow> GetState s p = Developing_1
         \<Longrightarrow> GetState s' p = Developing_1"
proof -
  define C where "C = mIgnitionCandidates s'"
  define K where "K = ignition_count e gp s (length C)"
  obtain s1 where fr: "scan_frame s s1"
    and isf: "ignited_so_far C K (s1\<lparr>mIgnitionCandidates := C\<rparr>) s'"
    using lowfreq_pass[OF ct st wr len, of offset dt gp] upd
    by (auto simp: C_def K_def)
  have l1: "length (mCombustionStateBuffer s1) = length (mCombustionStateBuffer s)"
    using fr by (simp add: scan_frame_def)
  show l': "length (mCombustionStateBuffer s') = length (mCombustionStateBuffer s)"
    using isf l1 by (simp add: ignited_so_far_def)
  show "GetState s' p = Developing_1"
    if p: "p < length (mCombustionStateBuffer s)" and d: "GetState s p = Developing_1"
  proof -
    have "GetState s1 p = Developing_1"
      using fr p d by (auto simp: scan_frame_def)
    moreover have "GetState s' p
        = (if p \<in> fst ` set (take K C) then Developing_1 else GetState s1 p)"
      using isf p l1 by (simp add: ignited_so_far_def GetState_def)
    ultimately show ?thesis by simp
  qed
qed

text \<open>
  The ship of the example, with a maximum of two burning particles: a low-frequency pass
  ignites both hot points. The maximum is then lowered to one, and the next
  low-frequency pass leaves both points developing.
\<close>

lemma ex_scan2:
  "lowfreq_loop ex_env ex_gp r 1 0 (ex_ship\<lparr>mIgnitionCandidates := []\<rparr>)
     = Some (ex_ship\<lparr>mIgnitionCandidates := [(0, 1 / 5), (1, 2 / 5)]\<rparr>)"
proof -
  have sp: "stride_points 0 1 3 = [0, 1, 2]"
    by (simp add: stride_points.simps)
  have l: "lowfreq_loop ex_env ex_gp r 1 0 (ex_ship\<lparr>mIgnitionCandidates := []\<rparr>)
      = Some (fold (lowfreq_point ex_env ex_gp r) (stride_points 0 1 3)
                (ex_ship\<lparr>mIgnitionCandidates := []\<rparr>))"
    by (rule lowfreq_loop_fold) (simp_all add: ex_ship_def)
  show ?thesis
    unfolding l sp
    by (simp add: lowfreq_point_def Let_def GetState_def GetTemperature_def GetPosition_def
        GetWater_def GetDecay_def effectiveIgnitionTemperature_def ignition_key_def
        ex_ship_def ex_gp_def ex_env_def CombustionState0_def)
qed

lemma ex_pass2_candidates:
  "\<exists>s'. UpdateCombustionLowFrequency ex_env 0 1 (1 / 50) ex_gp ex_ship = Some s'
        \<and> mIgnitionCandidates s' = [(1, 2 / 5), (0, 1 / 5)]"
proof -
  have K: "max_points_to_ignite ex_env ex_gp
      (ex_ship\<lparr>mIgnitionCandidates := [(0, 1 / 5), (1, 2 / 5)]\<rparr>) = 2"
    by (simp add: max_points_to_ignite_def ex_ship_def ex_gp_def ex_env_def)
  have srt: "nth_element ex_env (Suc (Suc 0)) [(0, 1 / 5), (Suc 0, 2 / 5)]
      = [(Suc 0, 2 / 5), (0 :: nat, 1 / 5 :: real)]"
    by (simp add: ex_env_def ex_nth_element_def sort_key_def)
  have "mIgnitionCandidates (ignite_candidates ex_env ex_gp
      (ex_ship\<lparr>mIgnitionCandidates := [(0, 1 / 5), (1, 2 / 5)]\<rparr>)) = [(1, 2 / 5), (0, 1 / 5)]"
    unfolding ignite_candidates_def K Let_def
    by (simp add: ignite_point_fields srt numeral_2_eq_2)
  then show ?thesis
    using ex_scan2 by (simp add: UpdateCombustionLowFrequency_def Let_def)
qed

definition ex_two_ignited :: Points where
  "ex_two_ignited = the (UpdateCombustionLowFrequency ex_env 0 1 (1 / 50) ex_gp ex_ship)"

definition ex_after_lowering :: Points where
  "ex_after_lowering
     = the (UpdateCombustionLowFrequency ex_env 0 1 (1 / 50) ex_gp1 ex_two_ignited)"

theorem combustion_cap_counterexample:
  "mBurningPoints ex_ship = []
   \<and> UpdateCombustionLowFrequency ex_env 0 1 (1 / 50) ex_gp ex_ship = Some ex_two_ignited
   \<and> UpdateCombustionLowFrequency ex_env 0 1 (1 / 50) ex_gp1 ex_two_ignited
       = Some ex_after_lowering
   \<and> MaxBurningParticles ex_gp = 2
   \<and> MaxBurningParticles ex_gp1 = 1
   \<and> GetState ex_after_lowering 0 = Developing_1
   \<and> GetState ex_after_lowering 1 = Developing_1
   \<and> \<not> combustion_cap_as_specified ex_gp1 ex_after_lowering"
proof -
  have c: "nth_element_contract (nth_element ex_env)"
    using ex_nth_element_contract by (simp add: ex_env_def)
  have w: "mShipPointCount ex_ship + 1 \<le> 4294967296"
    and l: "mShipPointCount ex_ship \<le> length (mCombustionStateBuffer ex_ship)"
    and l3: "length (mCombustionStateBuffer ex_ship) = 3"
    and n: "mShipPointCount ex_ship = 3"
    and b: "mBurningPoints ex_ship = []"
    by (simp_all add: ex_ship_def)
  obtain s2 where s2: "UpdateCombustionLowFrequency ex_env 0 1 (1 / 50) ex_gp ex_ship = Some s2"
    "mIgnitionCandidates s2 = [(1, 2 / 5), (0, 1 / 5)]"
    using ex_pass2_candidates by blast
  have e2: "ex_two_ignited = s2"
    using s2(1) by (simp add: ex_two_ignited_def)
  have f: "Choose ex_env 6 = 5" "MaxBurningParticles ex_gp = 2" "MaxBurningParticles ex_gp1 = 1"
    by (simp_all add: ex_env_def ex_gp_def ex_gp1_def)
  have ign: "{p. p < length (mCombustionStateBuffer ex_ship)
            \<and> GetState ex_ship p = NotBurning \<and> GetState s2 p = Developing_1} = {1, 0}"
    using lowfreq_pass_summary[OF c _ w l, of 0 "1 / 50" ex_gp] s2
    by (simp add: Let_def f b)
  have "0 \<in> {p. p < length (mCombustionStateBuffer ex_ship)
            \<and> GetState ex_ship p = NotBurning \<and> GetState s2 p = Developing_1}"
    "1 \<in> {p. p < length (mCombustionStateBuffer ex_ship)
            \<and> GetState ex_ship p = NotBurning \<and> GetState s2 p = Developing_1}"
    unfolding ign by simp_all
  then have d2: "GetState s2 0 = Developing_1" "GetState s2 1 = Developing_1"
    by simp_all
  have len2: "length (mCombustionStateBuffer s2) = 3"
    using UpdateCombustionLowFrequency_developing(1)[OF c _ w l s2(1)] l3 by simp
  have "combustion_reachable 2 ex_ship"
    by (rule combustion_reachable.start)
       (simp_all add: ex_ship_def GetState_def CombustionState0_def less_Suc_eq numeral_3_eq_3)
  then have "combustion_reachable 2 s2"
    by (rule combustion_reachable.low_frequency[OF _ _ c _ w s2(1)]) (simp_all add: f)
  then have "combustion_inv 2 s2"
    by (rule combustion_reachable_inv)
  then have cnt2: "mShipPointCount s2 \<le> length (mCombustionStateBuffer s2)"
    by (simp add: combustion_inv_def)
  then have w2: "mShipPointCount s2 + 1 \<le> 4294967296"
    using len2 by simp
  obtain s3 where s3: "UpdateCombustionLowFrequency ex_env 0 1 (1 / 50) ex_gp1 s2 = Some s3"
    using lowfreq_pass_summary[OF c _ w2 cnt2, of 0 "1 / 50" ex_gp1] by auto
  have e3: "ex_after_lowering = s3"
    using s3 by (simp add: ex_after_lowering_def e2)
  have len3: "length (mCombustionStateBuffer s3) = 3"
    using UpdateCombustionLowFrequency_developing(1)[OF c _ w2 cnt2 s3] len2 by simp
  have d3: "GetState s3 0 = Developing_1" "GetState s3 1 = Developing_1"
    using UpdateCombustionLowFrequency_developing(2)[OF c _ w2 cnt2 s3] d2 len2 by simp_all
  let ?S = "{p. p < length (mCombustionStateBuffer s3)
              \<and> (GetState s3 p = Developing_1 \<or> GetState s3 p = Developing_2
                  \<or> GetState s3 p = Burning)}"
  have "{0, 1} \<subseteq> ?S"
    using d3 len3 by simp
  moreover have "finite ?S"
    by simp
  ultimately have "card {0 :: nat, 1} \<le> card ?S"
    by (rule card_mono[rotated])
  then have "2 \<le> card ?S"
    by simp
  then have "\<not> combustion_cap_as_specified ex_gp1 s3"
    by (simp add: combustion_cap_as_specified_def f)
  then show ?thesis
    using b s2(1) s3 d3 f by (simp add: e2 e3)
qed

subsection \<open>A high-frequency pass that removes a point\<close>

text \<open>
  Three burning points in the list, none under water: the first is at the end of its
  extinction, the other two are about to pass from the second developing state to
  burning. The pass removes the first point, and so passes over the second; it then
  reads the third point twice, which starts to burn at the first reading and heats up at
  the second.
\<close>

definition ex_fire :: Points where
  "ex_fire =
     ex_ship\<lparr>mTemperatureBuffer := [298, 298, 298],
             mCombustionStateBuffer :=
               [\<lparr>State = Extinguishing_Smothered, FlameDevelopment = 2 / 100,
                 MaxFlameDevelopment = 1, Personality = 0\<rparr>,
                \<lparr>State = Developing_2, FlameDevelopment = 101 / 100,
                 MaxFlameDevelopment = 1, Personality = 0\<rparr>,
                \<lparr>State = Developing_2, FlameDevelopment = 101 / 100,
                 MaxFlameDevelopment = 1, Personality = 0\<rparr>],
             mBurningPoints := [0, 1, 2]\<rparr>"

lemma ex_fire_pass:
  "map State (mCombustionStateBuffer (UpdateCombustionHighFrequency ex_env (1 / 50) ex_gp ex_fire))
     = [NotBurning, Developing_2, Burning]
   \<and> mTemperatureBuffer (UpdateCombustionHighFrequency ex_env (1 / 50) ex_gp ex_fire)
     = [298, 298, 550]
   \<and> mBurningPoints (UpdateCombustionHighFrequency ex_env (1 / 50) ex_gp ex_fire) = [1, 2]"
proof -
  define h where "h = 100 * 1000 * (1 / 50) * CombustionHeatAdjustment ex_gp"
  define s1 where "s1 = highfreq_point ex_env ex_gp h 0 ex_fire"
  define s2 where "s2 = highfreq_point ex_env ex_gp h 2 s1"
  define s3 where "s3 = highfreq_point ex_env ex_gp h 2 s2"
  have r1: "s1 = ex_fire\<lparr>mCombustionStateBuffer :=
               [\<lparr>State = NotBurning, FlameDevelopment = 14 / 1000,
                 MaxFlameDevelopment = 1, Personality = 0\<rparr>,
                \<lparr>State = Developing_2, FlameDevelopment = 101 / 100,
                 MaxFlameDevelopment = 1, Personality = 0\<rparr>,
                \<lparr>State = Developing_2, FlameDevelopment = 101 / 100,
                 MaxFlameDevelopment = 1, Personality = 0\<rparr>],
             mBurningPoints := [1, 2]\<rparr>"
    unfolding s1_def
    by (simp add: highfreq_point_def develop_point_def stop_burning_if_done_def Let_def
        GetState_def set_State_def set_FlameDevelopment_def ex_fire_def ex_ship_def)
  have r2: "s2 = ex_fire\<lparr>mCombustionStateBuffer :=
               [\<lparr>State = NotBurning, FlameDevelopment = 14 / 1000,
                 MaxFlameDevelopment = 1, Personality = 0\<rparr>,
                \<lparr>State = Developing_2, FlameDevelopment = 101 / 100,
                 MaxFlameDevelopment = 1, Personality = 0\<rparr>,
                \<lparr>State = Burning, FlameDevelopment = 1,
                 MaxFlameDevelopment = 1, Personality = 0\<rparr>],
             mBurningPoints := [1, 2]\<rparr>"
    unfolding s2_def r1
    by (simp add: highfreq_point_def develop_point_def Let_def
        GetState_def GetPosition_def GetWater_def set_State_def set_FlameDevelopment_def
        ex_fire_def ex_ship_def ex_env_def ex_gp_def)
  have r3: "s3 = ex_fire\<lparr>mTemperatureBuffer := [298, 298, 550],
             mCombustionStateBuffer :=
               [\<lparr>State = NotBurning, FlameDevelopment = 14 / 1000,
                 MaxFlameDevelopment = 1, Personality = 0\<rparr>,
                \<lparr>State = Developing_2, FlameDevelopment = 101 / 100,
                 MaxFlameDevelopment = 1, Personality = 0\<rparr>,
                \<lparr>State = Burning, FlameDevelopment = 1,
                 MaxFlameDevelopment = 1, Personality = 0\<rparr>],
             mBurningPoints := [1, 2]\<rparr>"
    unfolding s3_def r2
    by (simp add: highfreq_point_def develop_point_def generate_heat_def Let_def
        GetState_def GetPosition_def GetWater_def GetConnectedSprings_def
        ex_fire_def ex_ship_def ex_env_def ex_gp_def)
  have v1: "highfreq_visit ex_env ex_gp h 0 ([0, 1, 2], ex_fire) = ([1, 2, 2], s1)"
    by (simp add: highfreq_visit_def Let_def s1_def[symmetric]) (simp add: r1)
  have v2: "highfreq_visit ex_env ex_gp h 1 ([1, 2, 2], s1) = ([1, 2, 2], s2)"
    by (simp add: highfreq_visit_def Let_def s2_def[symmetric]) (simp add: r2)
  have v3: "highfreq_visit ex_env ex_gp h 2 ([1, 2, 2], s2) = ([1, 2, 2], s3)"
    by (simp add: highfreq_visit_def Let_def s3_def[symmetric]) (simp add: r3)
  have bl: "mBurningPoints ex_fire = [0, 1, 2]"
    by (simp add: ex_fire_def)
  have up: "[0 ..< length [0 :: nat, 1, 2]] = [0, 1, 2]"
    by (simp add: upt_rec)
  have "UpdateCombustionHighFrequency ex_env (1 / 50) ex_gp ex_fire
      = snd (fold (highfreq_visit ex_env ex_gp h) [0, 1, 2] ([0, 1, 2], ex_fire))"
    unfolding UpdateCombustionHighFrequency_def Let_def h_def[symmetric] bl up ..
  also have "\<dots> = s3"
    by (simp only: fold_simps comp_apply id_apply v1 v2 v3 snd_conv)
  finally have "UpdateCombustionHighFrequency ex_env (1 / 50) ex_gp ex_fire = s3" .
  then show ?thesis
    by (simp add: r3)
qed

end
